theory Spec2Isabelle
  imports Complex_Main "HOL-Library.Sublist" "HOL-Library.Signed_Division" "HOL-Library.AList"
    "HOL-Library.Multiset"
begin

section \<open>Data model of hand\_tracking.py\<close>

text \<open>
  Pixel coordinates are pairs of integers. Python floats are modelled as reals: every
  distance below is the exact Euclidean distance, and rounding is not modelled.
  The calls into OpenCV (\<open>cv2.contourArea\<close>, \<open>cv2.moments\<close>, \<open>cv2.convexHull\<close>,
  \<open>cv2.findContours\<close>) are library code: their results are parameters of the model.
\<close>

type_synonym point = "int \<times> int"

datatype py_error = IndexError | ZeroDivisionError

text \<open>The info dictionary of one hand. A key that a backend does not set is \<open>None\<close>.\<close>

record hand_info =
  detected :: bool
  landmarks :: "point list option"
  center :: "point option"
  fingertips :: "point list"
  fingertips_named :: "(string \<times> point) list option"
  index_tip :: "point option"
  thumb_tip :: "point option"
  distance_index_thumb :: real
  hand_size_norm :: "real option"

text \<open>\<open>np.hypot(dx, dy)\<close> and \<open>(dx*dx + dy*dy) ** 0.5\<close> on integers.\<close>

definition hypot :: "int \<Rightarrow> int \<Rightarrow> real" where
  "hypot dx dy = sqrt (real_of_int (dx * dx + dy * dy))"

text \<open>The Euclidean distance of two pixels.\<close>

definition dist_px :: "point \<Rightarrow> point \<Rightarrow> real" where
  "dist_px p q = hypot (fst p - fst q) (snd p - snd q)"

text \<open>Python's \<open>int(x)\<close> on a float truncates towards zero.\<close>

definition py_int :: "real \<Rightarrow> int" where
  "py_int x = (if 0 \<le> x then \<lfloor>x\<rfloor> else \<lceil>x\<rceil>)"

text \<open>\<open>(w*w + h*h) ** 0.5\<close> for a frame of shape \<open>(h, w)\<close>.\<close>

definition frame_diagonal :: "int \<times> int \<Rightarrow> real" where
  "frame_diagonal frame_shape =
     (let (h, w) = frame_shape in sqrt (real_of_int (w * w + h * h)))"

section \<open>The heuristic backend: OpenCVHandTracker\<close>

text \<open>
  The loop of lines 131--139: \<open>tips\<close> is the accumulator, the second argument the rest of
  \<open>hull_sorted\<close>. The \<open>break\<close> is the exit taken once five tips are held.
\<close>

fun select_tips :: "point list \<Rightarrow> point list \<Rightarrow> point list" where
  "select_tips tips [] = tips"
| "select_tips tips (p # ps) =
     (let tips' =
        (if tips = [] then tips @ [p]
         else if list_all (\<lambda>q. hypot (fst p - fst q) (snd p - snd q) > 25) tips
              then tips @ [p] else tips)
      in if length tips' \<ge> 5 then tips' else select_tips tips' ps)"

text \<open>
  \<open>_extract_hand_info_from_contour(c, (h, w))\<close>. \<open>moments c\<close> stands for
  \<open>(M['m00'], M['m10'], M['m01'])\<close> and \<open>convexHull c\<close> for the list \<open>hull_pts\<close>.
\<close>

definition extract_hand_info_from_contour ::
  "('c \<Rightarrow> real \<times> real \<times> real) \<Rightarrow> ('c \<Rightarrow> point list) \<Rightarrow> 'c \<Rightarrow> int \<times> int \<Rightarrow> hand_info" where
  "extract_hand_info_from_contour moments convexHull c frame_shape =
     (let (h, w) = frame_shape;
          (m00, m10, m01) = moments c;
          cen = (if m00 \<noteq> 0 then (py_int (m10 / m00), py_int (m01 / m00))
                 else (w div 2, h div 2));
          hull_pts = convexHull c;
          hull_sorted = sort_key snd hull_pts;
          tips = select_tips [] hull_sorted;
          info = \<lparr> detected = True, landmarks = None, center = Some cen,
                   fingertips = tips, fingertips_named = None,
                   index_tip = None, thumb_tip = None,
                   distance_index_thumb = 0, hand_size_norm = None \<rparr>
      in if length tips \<ge> 2 then
           (let topk = take 3 tips;
                topk_sorted_x = sort_key fst topk;
                th = hd topk_sorted_x;
                ix = last topk_sorted_x;
                dx = fst ix - fst th;
                dy = snd ix - snd th
            in info \<lparr> thumb_tip := Some th, index_tip := Some ix,
                      distance_index_thumb := hypot dx dy \<rparr>)
         else info)"

text \<open>
  \<open>sorted(xs, key=f, reverse=True)\<close>: CPython reverses the list, sorts it stably and
  reverses the result, so equal keys keep their original order.
\<close>

definition sorted_desc :: "('a \<Rightarrow> real) \<Rightarrow> 'a list \<Rightarrow> 'a list" where
  "sorted_desc f xs = rev (sort_key f (rev xs))"

text \<open>The tracker object: its only field is the \<open>deque(maxlen=6)\<close>.\<close>

record tracker =
  history :: "hand_info list list"

text \<open>\<open>deque.append\<close> with a maximum length: a full deque drops its oldest element.\<close>

definition deque_append :: "nat \<Rightarrow> 'a list \<Rightarrow> 'a \<Rightarrow> 'a list" where
  "deque_append maxlen d x = (if length d \<ge> maxlen then drop (length d + 1 - maxlen) (d @ [x])
                              else d @ [x])"

text \<open>The loop of lines 161--166 over \<open>contours_sorted[:2]\<close>, with its \<open>continue\<close>.\<close>

fun collect_hands ::
  "('c \<Rightarrow> real) \<Rightarrow> ('c \<Rightarrow> hand_info) \<Rightarrow> 'c list \<Rightarrow> hand_info list \<Rightarrow> hand_info list" where
  "collect_hands contourArea ext [] hands_out = hands_out"
| "collect_hands contourArea ext (c # cs) hands_out =
     (if contourArea c < 2000 then collect_hands contourArea ext cs hands_out
      else collect_hands contourArea ext cs (hands_out @ [ext c]))"

text \<open>
  \<open>OpenCVHandTracker.process\<close>. \<open>contours\<close> is what \<open>cv2.findContours\<close> returned for the
  mask of the frame, \<open>frame_shape = (h, w)\<close>. The result is the returned list and the
  tracker after the call.
\<close>

definition process ::
  "('c \<Rightarrow> real) \<Rightarrow> ('c \<Rightarrow> real \<times> real \<times> real) \<Rightarrow> ('c \<Rightarrow> point list) \<Rightarrow>
   tracker \<Rightarrow> 'c list \<Rightarrow> int \<times> int \<Rightarrow> hand_info list \<times> tracker" where
  "process contourArea moments convexHull self contours frame_shape =
     (if contours = [] then ([], self)
      else
        (let contours_sorted = sorted_desc contourArea contours;
             hands_out = collect_hands contourArea
                 (\<lambda>c. extract_hand_info_from_contour moments convexHull c frame_shape)
                 (take 2 contours_sorted) [];
             self' = self \<lparr> history := deque_append 6 (history self) hands_out \<rparr>
         in (hands_out, self')))"

section \<open>The landmark backend: MediaPipeHandTracker\<close>

text \<open>A subscript \<open>xs[i]\<close> with a non-negative literal index raises IndexError out of range.\<close>

definition subscript :: "'a list \<Rightarrow> nat \<Rightarrow> py_error + 'a" where
  "subscript xs i = (if i < length xs then Inr (xs ! i) else Inl IndexError)"

text \<open>An exception ends the computation: the rest runs only on a value.\<close>

definition and_then :: "py_error + 'a \<Rightarrow> ('a \<Rightarrow> py_error + 'b) \<Rightarrow> py_error + 'b" where
  "and_then r f = (case r of Inl e \<Rightarrow> Inl e | Inr v \<Rightarrow> f v)"

text \<open>A float division raises ZeroDivisionError on a zero divisor.\<close>

definition py_div :: "real \<Rightarrow> real \<Rightarrow> py_error + real" where
  "py_div a b = (if b = 0 then Inl ZeroDivisionError else Inr (a / b))"

text \<open>
  The body of the loop of lines 55--83 for one hand: \<open>pts\<close> is the list of pixel
  coordinates of line 56, \<open>frame_shape = (h, w)\<close>.
\<close>

definition mp_hand_info :: "int \<times> int \<Rightarrow> point list \<Rightarrow> py_error + hand_info" where
  "mp_hand_info frame_shape pts =
     (let (h, w) = frame_shape in
      and_then (subscript pts 4) (\<lambda>p4.
      and_then (subscript pts 8) (\<lambda>p8.
      and_then (subscript pts 12) (\<lambda>p12.
      and_then (subscript pts 16) (\<lambda>p16.
      and_then (subscript pts 20) (\<lambda>p20.
      and_then (subscript pts 0) (\<lambda>p0.
      and_then (subscript pts 9) (\<lambda>p9.
        (let cen = (py_int (real_of_int (fst p0 + fst p9) / 2),
                    py_int (real_of_int (snd p0 + snd p9) / 2));
             dx = fst p8 - fst p4;
             dy = snd p8 - snd p4;
             wrist = p0;
             middle_tip = p12;
             hand_size_dx = fst middle_tip - fst wrist;
             hand_size_dy = snd middle_tip - snd wrist;
             hand_size_pixels = hypot hand_size_dx hand_size_dy;
             frame_diag = frame_diagonal frame_shape
         in and_then (py_div hand_size_pixels frame_diag) (\<lambda>hsn.
            Inr \<lparr> detected = True, landmarks = Some pts, center = Some cen,
                  fingertips = [p4, p8, p12, p16, p20],
                  fingertips_named = Some [(''thumb'', p4), (''index'', p8),
                     (''middle'', p12), (''ring'', p16), (''pinky'', p20)],
                  index_tip = Some p8, thumb_tip = Some p4,
                  distance_index_thumb = hypot dx dy,
                  hand_size_norm = Some hsn \<rparr>))))))))))"

text \<open>Line 56: the normalised landmarks of one hand scaled to pixels.\<close>

definition pixel_points :: "int \<times> int \<Rightarrow> (real \<times> real) list \<Rightarrow> point list" where
  "pixel_points frame_shape lm =
     (let (h, w) = frame_shape
      in map (\<lambda>l. (py_int (fst l * real_of_int w), py_int (snd l * real_of_int h))) lm)"

text \<open>
  \<open>MediaPipeHandTracker.process\<close>: \<open>multi_hand_landmarks\<close> is what the landmark model
  returned for the frame (the empty list when it is \<open>None\<close>).
\<close>

fun mp_collect ::
  "int \<times> int \<Rightarrow> (real \<times> real) list list \<Rightarrow> hand_info list \<Rightarrow> py_error + hand_info list" where
  "mp_collect frame_shape [] hands_out = Inr hands_out"
| "mp_collect frame_shape (lm # lms) hands_out =
     and_then (mp_hand_info frame_shape (pixel_points frame_shape lm))
       (\<lambda>info. mp_collect frame_shape lms (hands_out @ [info]))"

definition mp_process ::
  "int \<times> int \<Rightarrow> (real \<times> real) list list \<Rightarrow> py_error + hand_info list" where
  "mp_process frame_shape multi_hand_landmarks =
     mp_collect frame_shape multi_hand_landmarks []"

section \<open>The gesture derivation stage: the loop body of main\<close>

text \<open>
  The dictionary \<open>ninfo\<close>: \<open>base\<close> is the copy \<open>dict(info)\<close>, the other fields are the keys
  the loop adds. Dictionaries keep insertion order, so they are association lists, and
  \<open>d[k] = v\<close> is \<open>AList.update\<close>.
\<close>

record norm_hand_info =
  base :: hand_info
  index_norm :: "(real \<times> real) option"
  thumb_norm :: "(real \<times> real) option"
  finger_dist_norm :: "(string \<times> real) list option"
  distance_norm :: real
  pinch_finger :: "string option"
  pinch_distance_norm :: "real option"
  side :: "string option"

text \<open>\<open>(ix / w, iy / h)\<close> of lines 334 and 337.\<close>

definition norm_point :: "int \<times> int \<Rightarrow> point \<Rightarrow> py_error + real \<times> real" where
  "norm_point frame_shape p =
     (let (h, w) = frame_shape in
      and_then (py_div (real_of_int (fst p)) (real_of_int w)) (\<lambda>x.
      and_then (py_div (real_of_int (snd p)) (real_of_int h)) (\<lambda>y. Inr (x, y))))"

text \<open>The optional tip of lines 332--337: nothing is computed for an absent tip.\<close>

definition norm_tip :: "int \<times> int \<Rightarrow> point option \<Rightarrow> py_error + (real \<times> real) option" where
  "norm_tip frame_shape tip =
     (case tip of None \<Rightarrow> Inr None
      | Some p \<Rightarrow> and_then (norm_point frame_shape p) (\<lambda>q. Inr (Some q)))"

text \<open>The loop of lines 343--349 over \<open>fingertips_named.items()\<close>, filling \<open>dist_map\<close>.\<close>

fun finger_dists ::
  "real \<Rightarrow> point \<Rightarrow> (string \<times> point) list \<Rightarrow> (string \<times> real) list \<Rightarrow>
   py_error + (string \<times> real) list" where
  "finger_dists diag thumb_pt [] dist_map = Inr dist_map"
| "finger_dists diag thumb_pt ((fname, pt) # rest) dist_map =
     (if fname = ''thumb'' then finger_dists diag thumb_pt rest dist_map
      else
        (let dx = fst pt - fst thumb_pt;
             dy = snd pt - snd thumb_pt;
             dist = hypot dx dy
         in and_then (py_div dist diag) (\<lambda>v.
              finger_dists diag thumb_pt rest (AList.update fname v dist_map))))"

text \<open>Lines 353--356: the value of \<open>finger_min\<close> for a given \<open>dist_map\<close>.\<close>

definition pinch_select :: "real \<Rightarrow> (string \<times> real) list \<Rightarrow> string option" where
  "pinch_select pinch_thresh dist_map =
     (if dist_map \<noteq> [] then
        (let f_sorted = sort_key snd dist_map
         in if snd (hd f_sorted) < pinch_thresh then Some (fst (hd f_sorted)) else None)
      else None)"

text \<open>
  Lines 339--356: the pair of the value stored under \<open>finger_dist_norm\<close> (\<open>None\<close> when
  the key is not set) and \<open>finger_min\<close>. A tuple is truthy, an empty dictionary is falsy.
\<close>

definition finger_stage ::
  "real \<Rightarrow> real \<Rightarrow> hand_info \<Rightarrow> py_error + ((string \<times> real) list option \<times> string option)" where
  "finger_stage pinch_thresh diag info =
     (case (thumb_tip info, fingertips_named info) of
        (Some thumb_pt, Some named) \<Rightarrow>
          (if named \<noteq> [] then
             and_then (finger_dists diag thumb_pt named []) (\<lambda>dist_map.
               Inr (Some dist_map, pinch_select pinch_thresh dist_map))
           else Inr (None, None))
      | _ \<Rightarrow> Inr (None, None))"

text \<open>
  Lines 331--371 for one hand, with the local constant \<open>pinch_thresh\<close> as a parameter.
  \<open>if finger_min:\<close> is false for \<open>None\<close> and for the empty string.
\<close>

definition derive_hand :: "real \<Rightarrow> int \<times> int \<Rightarrow> hand_info \<Rightarrow> py_error + norm_hand_info" where
  "derive_hand pinch_thresh frame_shape info =
     (let (h, w) = frame_shape;
          diag = frame_diagonal frame_shape
      in
      and_then (norm_tip frame_shape (index_tip info)) (\<lambda>index_n.
      and_then (norm_tip frame_shape (thumb_tip info)) (\<lambda>thumb_n.
      and_then (finger_stage pinch_thresh diag info) (\<lambda>(fdn, finger_min).
      and_then (py_div (distance_index_thumb info) diag) (\<lambda>dn.
        (let pinch = (case finger_min of None \<Rightarrow> None
                      | Some f \<Rightarrow> if f \<noteq> [] then Some f else None);
             pinch_dist = (case pinch of None \<Rightarrow> None
                      | Some f \<Rightarrow> (case fdn of None \<Rightarrow> None | Some dm \<Rightarrow> map_of dm f));
             sd = (case center info of
                     Some (cx, cy) \<Rightarrow>
                       Some (if real_of_int cx < real_of_int w / 2 then ''left'' else ''right'')
                   | None \<Rightarrow> None)
         in Inr \<lparr> base = info, index_norm = index_n, thumb_norm = thumb_n,
                  finger_dist_norm = fdn, distance_norm = dn,
                  pinch_finger = pinch, pinch_distance_norm = pinch_dist,
                  side = sd \<rparr>))))))"

text \<open>The stage as main runs it: \<open>pinch_thresh = 0.05\<close>.\<close>

definition normalize_hand :: "int \<times> int \<Rightarrow> hand_info \<Rightarrow> py_error + norm_hand_info" where
  "normalize_hand frame_shape info = derive_hand (5 / 100) frame_shape info"

section \<open>The fingertip estimator\<close>



lemma hypot_less_iff: "0 \<le> r \<Longrightarrow> (r < hypot dx dy) = (r * r < real_of_int (dx * dx + dy * dy))"
  unfolding hypot_def
  by (metis abs_of_nonneg real_sqrt_abs2 real_sqrt_less_iff)

lemma dist_px_sym: "dist_px p q = dist_px q p"
  unfolding dist_px_def hypot_def
  by (simp add: algebra_simps)

lemma select_tips_length: "length tips < 5 \<Longrightarrow> length (select_tips tips ps) \<le> 5"
  by (induction ps arbitrary: tips) (auto simp: Let_def)

lemma select_tips_far:
  "sorted_wrt (\<lambda>q p. dist_px p q > 25) tips \<Longrightarrow>
   sorted_wrt (\<lambda>q p. dist_px p q > 25) (select_tips tips ps)"
  by (induction ps arbitrary: tips) (auto simp: Let_def sorted_wrt_append list_all_iff dist_px_def)

lemma select_tips_subseq: "\<exists>ys. select_tips tips ps = tips @ ys \<and> subseq ys ps"
proof (induction ps arbitrary: tips)
  case Nil
  then show ?case by simp
next
  case (Cons p ps)
  show ?case
  proof (cases "tips = [] \<or> list_all (\<lambda>q. hypot (fst p - fst q) (snd p - snd q) > 25) tips")
    case True
    then have t: "select_tips tips (p # ps) = (if length (tips @ [p]) \<ge> 5 then tips @ [p] else select_tips (tips @ [p]) ps)"
      by (auto simp: Let_def)
    show ?thesis
    proof (cases "length (tips @ [p]) \<ge> 5")
      case True
      with t have "select_tips tips (p # ps) = tips @ [p]" by simp
      moreover have "subseq [p] (p # ps)" by simp
      ultimately show ?thesis by blast
    next
      case False
      with t have e: "select_tips tips (p # ps) = select_tips (tips @ [p]) ps" by simp
      from Cons.IH [of "tips @ [p]"] obtain ys where
        "select_tips (tips @ [p]) ps = (tips @ [p]) @ ys" "subseq ys ps" by blast
      then have "select_tips tips (p # ps) = tips @ (p # ys)" "subseq (p # ys) (p # ps)"
        using e by simp_all
      then show ?thesis by blast
    qed
  next
    case False
    then have t: "select_tips tips (p # ps) = (if length tips \<ge> 5 then tips else select_tips tips ps)"
      by (auto simp: Let_def)
    show ?thesis
    proof (cases "length tips \<ge> 5")
      case True
      with t have "select_tips tips (p # ps) = tips @ []" by simp
      moreover have "subseq [] (p # ps)" by simp
      ultimately show ?thesis by blast
    next
      case False
      with t have e: "select_tips tips (p # ps) = select_tips tips ps" by simp
      from Cons.IH [of tips] obtain ys where
        "select_tips tips ps = tips @ ys" "subseq ys ps" by blast
      then have "select_tips tips (p # ps) = tips @ ys" "subseq ys (p # ps)"
        using e by (simp_all add: list_emb_Cons)
      then show ?thesis by blast
    qed
  qed
qed

lemma fingertips_extract:
  "fingertips (extract_hand_info_from_contour moments convexHull c fs) =
   select_tips [] (sort_key snd (convexHull c))"
  by (simp add: extract_hand_info_from_contour_def Let_def split: prod.splits)


text \<open>
  Claim C2. For every contour the fingertips list of the heuristic backend has at most five
  points, and any two of its entries at different positions are more than 25 pixels apart.
\<close>

theorem fingertips_separated:
  fixes moments :: "'c \<Rightarrow> real \<times> real \<times> real"
  shows "length (fingertips (extract_hand_info_from_contour moments convexHull c fs)) \<le> 5 \<and>
    (\<forall>i j. i < length (fingertips (extract_hand_info_from_contour moments convexHull c fs)) \<longrightarrow>
           j < length (fingertips (extract_hand_info_from_contour moments convexHull c fs)) \<longrightarrow>
           i \<noteq> j \<longrightarrow>
           25 < dist_px (fingertips (extract_hand_info_from_contour moments convexHull c fs) ! i)
                        (fingertips (extract_hand_info_from_contour moments convexHull c fs) ! j))"
proof -
  let ?tips = "select_tips [] (sort_key snd (convexHull c))"
  have len: "length ?tips \<le> 5"
    by (rule select_tips_length) simp
  have far: "sorted_wrt (\<lambda>q p. dist_px p q > 25) ?tips"
    by (rule select_tips_far) simp
  have "25 < dist_px (?tips ! i) (?tips ! j)" if "i < length ?tips" "j < length ?tips" "i \<noteq> j" for i j
  proof (cases "i < j")
    case True
    with far that have "25 < dist_px (?tips ! j) (?tips ! i)"
      by (simp add: sorted_wrt_iff_nth_less)
    then show ?thesis by (simp add: dist_px_sym)
  next
    case False
    with that have "j < i" by simp
    with far that show ?thesis
      by (simp add: sorted_wrt_iff_nth_less)
  qed
  with len show ?thesis
    by (simp add: fingertips_extract)
qed

theorem fingertips_separated_witness:
  "length (fingertips (extract_hand_info_from_contour (\<lambda>c::unit. (0, 0, 0))
      (\<lambda>c. [(30, 0), (0, 0), (10, 5)]) () (480, 640))) = 2 \<and>
   25 < dist_px (fingertips (extract_hand_info_from_contour (\<lambda>c::unit. (0, 0, 0))
      (\<lambda>c. [(30, 0), (0, 0), (10, 5)]) () (480, 640)) ! 0)
     (fingertips (extract_hand_info_from_contour (\<lambda>c::unit. (0, 0, 0))
      (\<lambda>c. [(30, 0), (0, 0), (10, 5)]) () (480, 640)) ! 1)"
proof -
  have l: "length (fingertips (extract_hand_info_from_contour (\<lambda>c::unit. (0, 0, 0))
      (\<lambda>c. [(30, 0), (0, 0), (10, 5)]) () (480, 640))) = 2"
    by (simp add: fingertips_extract Let_def hypot_less_iff)
  with fingertips_separated [of "\<lambda>c::unit. (0, 0, 0)" "\<lambda>c. [(30, 0), (0, 0), (10, 5)]" "()" "(480, 640)"]
  show ?thesis by simp
qed

lemma sorted_wrt_subseq_of:
  "subseq xs ys \<Longrightarrow> sorted_wrt P ys \<Longrightarrow> sorted_wrt P xs"
proof (induction rule: list_emb.induct)
  case (list_emb_Nil ys)
  then show ?case by simp
next
  case (list_emb_Cons xs ys y)
  then show ?case by simp
next
  case (list_emb_Cons2 x y xs ys)
  have "set xs \<subseteq> set ys"
  proof
    fix a assume "a \<in> set xs"
    with list_emb_Cons2(2) obtain b where "b \<in> set ys" "a = b" by (rule list_emb_set)
    then show "a \<in> set ys" by simp
  qed
  with list_emb_Cons2 show ?case by auto
qed

lemma sorted_select_tips:
  "sorted (map snd (tips @ ps)) \<Longrightarrow> sorted (map snd (select_tips tips ps))"
proof -
  assume s: "sorted (map snd (tips @ ps))"
  obtain ys where ys: "select_tips tips ps = tips @ ys" "subseq ys ps"
    using select_tips_subseq by blast
  then have "subseq (tips @ ys) (tips @ ps)"
    by (simp add: list_emb_append_mono)
  then have "subseq (map snd (tips @ ys)) (map snd (tips @ ps))"
    by (rule subseq_map)
  then have "sorted (map snd (tips @ ys))"
    using s by (rule sorted_wrt_subseq_of)
  then show ?thesis
    unfolding ys(1) .
qed

lemma select_tips_hd: "select_tips [] (p # ps) = p # tl (select_tips [] (p # ps))"
proof -
  obtain ys where "select_tips [p] ps = [p] @ ys"
    using select_tips_subseq by blast
  then show ?thesis by (simp add: Let_def)
qed

text \<open>
  Claim C10. For every contour the fingertips list is a subsequence of the hull points
  sorted by vertical coordinate ascending, so its vertical coordinates never decrease;
  when the hull is not empty, the first fingertip is a hull point that no hull point lies
  above.
\<close>

theorem fingertips_topmost_first:
  fixes moments :: "'c \<Rightarrow> real \<times> real \<times> real"
  shows "subseq (fingertips (extract_hand_info_from_contour moments convexHull c fs))
           (sort_key snd (convexHull c)) \<and>
    sorted (map snd (fingertips (extract_hand_info_from_contour moments convexHull c fs))) \<and>
    (convexHull c \<noteq> [] \<longrightarrow>
       fingertips (extract_hand_info_from_contour moments convexHull c fs) \<noteq> [] \<and>
       hd (fingertips (extract_hand_info_from_contour moments convexHull c fs)) \<in> set (convexHull c) \<and>
       (\<forall>p \<in> set (convexHull c).
          snd (hd (fingertips (extract_hand_info_from_contour moments convexHull c fs))) \<le> snd p))"
proof -
  let ?hs = "sort_key snd (convexHull c)"
  let ?tips = "select_tips [] ?hs"
  obtain ys where ys: "?tips = [] @ ys" "subseq ys ?hs"
    using select_tips_subseq by blast
  then have sub: "subseq ?tips ?hs" by simp
  have srt: "sorted (map snd ?tips)"
    by (rule sorted_select_tips) simp
  have top: "?tips \<noteq> [] \<and> hd ?tips \<in> set (convexHull c) \<and>
      (\<forall>p \<in> set (convexHull c). snd (hd ?tips) \<le> snd p)" if ne: "convexHull c \<noteq> []"
  proof -
    have "length ?hs = length (convexHull c)" by simp
    with ne have "?hs \<noteq> []" by (metis length_0_conv)
    then obtain q qs where q: "?hs = q # qs" by (cases ?hs) auto
    have "sorted (map snd ?hs)" by simp
    with q have le: "\<forall>p \<in> set (q # qs). snd q \<le> snd p" by auto
    have st: "set (q # qs) = set (convexHull c)"
      unfolding q [symmetric] by simp
    have "select_tips [] (q # qs) = q # tl (select_tips [] (q # qs))"
      by (rule select_tips_hd)
    then obtain zs where zs: "select_tips [] (q # qs) = q # zs" by blast
    have t1: "?tips \<noteq> []" unfolding q zs by simp
    have t2: "hd ?tips = q" unfolding q zs by simp
    have t3: "q \<in> set (convexHull c)" unfolding st [symmetric] by simp
    have t4: "\<forall>p \<in> set (convexHull c). snd q \<le> snd p"
      unfolding st [symmetric] by (rule le)
    show ?thesis unfolding t2 using t1 t3 t4 by blast
  qed
  from sub srt top show ?thesis
    by (simp add: fingertips_extract)
qed

theorem fingertips_topmost_first_witness:
  "[(30, 0), (0, 0), (10, 5)] \<noteq> ([]::point list) \<and>
   fingertips (extract_hand_info_from_contour (\<lambda>c::unit. (0, 0, 0))
        (\<lambda>c. [(30, 0), (0, 0), (10, 5)]) () (480, 640)) \<noteq> [] \<and>
   snd (hd (fingertips (extract_hand_info_from_contour (\<lambda>c::unit. (0, 0, 0))
        (\<lambda>c. [(30, 0), (0, 0), (10, 5)]) () (480, 640)))) \<le> snd ((10, 5)::point)"
proof -
  have ne: "[(30, 0), (0, 0), (10, 5)] \<noteq> ([]::point list)" by simp
  have m: "((10, 5)::point) \<in> set [(30, 0), (0, 0), (10, 5)]" by simp
  from ne m fingertips_topmost_first [of "\<lambda>c::unit. (0, 0, 0)"
      "\<lambda>c. [(30, 0), (0, 0), (10, 5)]" "()" "(480, 640)"]
  show ?thesis by blast
qed

section \<open>The thumb and index heuristic\<close>

lemma hd_sort_key_least:
  fixes f :: "'a \<Rightarrow> 'b::linorder"
  assumes "xs \<noteq> []"
  shows "hd (sort_key f xs) \<in> set xs \<and> (\<forall>p \<in> set xs. f (hd (sort_key f xs)) \<le> f p)"
proof -
  have "length (sort_key f xs) = length xs" by simp
  with assms have "sort_key f xs \<noteq> []" by (metis length_0_conv)
  then obtain a as where a: "sort_key f xs = a # as" by (cases "sort_key f xs") auto
  have "sorted (map f (sort_key f xs))" by simp
  then have le: "\<forall>p \<in> set (a # as). f a \<le> f p" unfolding a by auto
  have st: "set (a # as) = set xs" unfolding a [symmetric] by simp
  have "a \<in> set xs" unfolding st [symmetric] by simp
  moreover have "\<forall>p \<in> set xs. f a \<le> f p" unfolding st [symmetric] by (rule le)
  ultimately show ?thesis unfolding a by simp
qed

lemma last_sort_key_greatest:
  fixes f :: "'a \<Rightarrow> 'b::linorder"
  assumes "xs \<noteq> []"
  shows "last (sort_key f xs) \<in> set xs \<and> (\<forall>p \<in> set xs. f p \<le> f (last (sort_key f xs)))"
proof -
  have "length (sort_key f xs) = length xs" by simp
  with assms have ne: "sort_key f xs \<noteq> []" by (metis length_0_conv)
  then obtain bs b where b: "sort_key f xs = bs @ [b]" by (metis rev_exhaust)
  have "sorted (map f (sort_key f xs))" by simp
  then have le: "\<forall>p \<in> set (bs @ [b]). f p \<le> f b" unfolding b by (auto simp: sorted_append)
  have st: "set (bs @ [b]) = set xs" unfolding b [symmetric] by simp
  have "b \<in> set xs" unfolding st [symmetric] by simp
  moreover have "\<forall>p \<in> set xs. f p \<le> f b" unfolding st [symmetric] by (rule le)
  ultimately show ?thesis unfolding b by simp
qed

lemma extract_roles_some:
  assumes "2 \<le> length (select_tips [] (sort_key snd (convexHull c)))"
  shows "thumb_tip (extract_hand_info_from_contour moments convexHull c fs) =
           Some (hd (sort_key fst (take 3 (select_tips [] (sort_key snd (convexHull c))))))"
    and "index_tip (extract_hand_info_from_contour moments convexHull c fs) =
           Some (last (sort_key fst (take 3 (select_tips [] (sort_key snd (convexHull c))))))"
    and "distance_index_thumb (extract_hand_info_from_contour moments convexHull c fs) =
           dist_px (last (sort_key fst (take 3 (select_tips [] (sort_key snd (convexHull c))))))
                   (hd (sort_key fst (take 3 (select_tips [] (sort_key snd (convexHull c))))))"
  using assms
  by (simp_all add: extract_hand_info_from_contour_def Let_def dist_px_def split: prod.splits)

lemma extract_roles_none:
  assumes "length (select_tips [] (sort_key snd (convexHull c))) < 2"
  shows "thumb_tip (extract_hand_info_from_contour moments convexHull c fs) = None"
    and "index_tip (extract_hand_info_from_contour moments convexHull c fs) = None"
    and "distance_index_thumb (extract_hand_info_from_contour moments convexHull c fs) = 0"
  using assms
  by (simp_all add: extract_hand_info_from_contour_def Let_def split: prod.splits)

text \<open>
  Claim C3. For the hand info the heuristic backend builds from a contour: with two or
  more fingertips, \<open>thumb_tip\<close> has the least and \<open>index_tip\<close> the greatest horizontal
  coordinate among the first three fingertips, both are entries of \<open>fingertips\<close>, and
  \<open>distance_index_thumb\<close> is their Euclidean distance; with fewer than two, both are
  \<open>None\<close> and the distance is 0. The function is total: it has no failing branch.
\<close>

theorem thumb_index_roles:
  assumes "info = extract_hand_info_from_contour moments convexHull c fs"
  shows "(2 \<le> length (fingertips info) \<longrightarrow>
           (\<exists>th ix. thumb_tip info = Some th \<and> index_tip info = Some ix \<and>
              th \<in> set (take 3 (fingertips info)) \<and> ix \<in> set (take 3 (fingertips info)) \<and>
              (\<forall>p \<in> set (take 3 (fingertips info)). fst th \<le> fst p \<and> fst p \<le> fst ix) \<and>
              th \<in> set (fingertips info) \<and> ix \<in> set (fingertips info) \<and>
              distance_index_thumb info = dist_px ix th)) \<and>
         (length (fingertips info) < 2 \<longrightarrow>
            thumb_tip info = None \<and> index_tip info = None \<and> distance_index_thumb info = 0)"
proof -
  let ?tips = "select_tips [] (sort_key snd (convexHull c))"
  let ?th = "hd (sort_key fst (take 3 ?tips))"
  let ?ix = "last (sort_key fst (take 3 ?tips))"
  have ft: "fingertips info = ?tips"
    unfolding assms by (rule fingertips_extract)
  have many: "\<exists>th ix. thumb_tip info = Some th \<and> index_tip info = Some ix \<and>
              th \<in> set (take 3 ?tips) \<and> ix \<in> set (take 3 ?tips) \<and>
              (\<forall>p \<in> set (take 3 ?tips). fst th \<le> fst p \<and> fst p \<le> fst ix) \<and>
              th \<in> set ?tips \<and> ix \<in> set ?tips \<and>
              distance_index_thumb info = dist_px ix th" if two: "2 \<le> length ?tips"
  proof -
    from two have ne: "take 3 ?tips \<noteq> []" by auto
    have sub: "set (take 3 ?tips) \<subseteq> set ?tips" by (rule set_take_subset)
    from hd_sort_key_least [OF ne, of fst] have
      h1: "?th \<in> set (take 3 ?tips)" and h2: "\<forall>p \<in> set (take 3 ?tips). fst ?th \<le> fst p"
      by blast+
    from last_sort_key_greatest [OF ne, of fst] have
      l1: "?ix \<in> set (take 3 ?tips)" and l2: "\<forall>p \<in> set (take 3 ?tips). fst p \<le> fst ?ix"
      by blast+
    from h1 l1 sub have m: "?th \<in> set ?tips" "?ix \<in> set ?tips" by blast+
    have r: "thumb_tip info = Some ?th" "index_tip info = Some ?ix"
      "distance_index_thumb info = dist_px ?ix ?th"
      unfolding assms
      using two extract_roles_some [where convexHull = convexHull and c = c and moments = moments and fs = fs]
      by blast+
    from r h1 h2 l1 l2 m show ?thesis by blast
  qed
  have few: "thumb_tip info = None \<and> index_tip info = None \<and> distance_index_thumb info = 0"
    if "length ?tips < 2"
    unfolding assms
    using that extract_roles_none [where convexHull = convexHull and c = c and moments = moments and fs = fs]
    by blast
  from many few show ?thesis unfolding ft by blast
qed

theorem thumb_index_roles_witness:
  "2 \<le> length (fingertips (extract_hand_info_from_contour (\<lambda>c::unit. (0, 0, 0))
      (\<lambda>c. [(180, 110), (100, 100), (140, 300)]) () (480, 640))) \<and>
   thumb_tip (extract_hand_info_from_contour (\<lambda>c::unit. (0, 0, 0))
      (\<lambda>c. [(180, 110), (100, 100), (140, 300)]) () (480, 640)) \<noteq> None \<and>
   length (fingertips (extract_hand_info_from_contour (\<lambda>c::unit. (0, 0, 0))
      (\<lambda>c. [(7, 7)]) () (480, 640))) < 2 \<and>
   thumb_tip (extract_hand_info_from_contour (\<lambda>c::unit. (0, 0, 0))
      (\<lambda>c. [(7, 7)]) () (480, 640)) = None"
proof -
  have a: "2 \<le> length (fingertips (extract_hand_info_from_contour (\<lambda>c::unit. (0, 0, 0))
      (\<lambda>c. [(180, 110), (100, 100), (140, 300)]) () (480, 640)))"
    by (simp add: fingertips_extract Let_def hypot_less_iff)
  have b: "length (fingertips (extract_hand_info_from_contour (\<lambda>c::unit. (0, 0, 0))
      (\<lambda>c. [(7, 7)]) () (480, 640))) < 2"
    by (simp add: fingertips_extract Let_def)
  from a thumb_index_roles [OF refl, of "\<lambda>c::unit. (0, 0, 0)"
      "\<lambda>c. [(180, 110), (100, 100), (140, 300)]" "()" "(480, 640)"]
  have c: "thumb_tip (extract_hand_info_from_contour (\<lambda>c::unit. (0, 0, 0))
      (\<lambda>c. [(180, 110), (100, 100), (140, 300)]) () (480, 640)) \<noteq> None"
    by blast
  from b thumb_index_roles [OF refl, of "\<lambda>c::unit. (0, 0, 0)" "\<lambda>c. [(7, 7)]" "()" "(480, 640)"]
  have d: "thumb_tip (extract_hand_info_from_contour (\<lambda>c::unit. (0, 0, 0))
      (\<lambda>c. [(7, 7)]) () (480, 640)) = None"
    by blast
  from a b c d show ?thesis by blast
qed

section \<open>The contour selector and the temporal buffer\<close>

lemma collect_hands_filter:
  "collect_hands contourArea ext cs hands_out =
     hands_out @ map ext (filter (\<lambda>c. 2000 \<le> contourArea c) cs)"
  by (induction cs arbitrary: hands_out) (auto simp: not_less)

lemma sorted_desc_descending: "sorted_wrt (\<lambda>a b. f b \<le> f a) (sorted_desc f xs)"
proof -
  have "sorted (map f (sort_key f (rev xs)))" by simp
  then have "sorted_wrt (\<lambda>a b. f a \<le> f b) (sort_key f (rev xs))"
    by (simp only: sorted_map)
  then show ?thesis
    unfolding sorted_desc_def by (simp only: sorted_wrt_rev)
qed

lemma mset_sorted_desc: "mset (sorted_desc f xs) = mset xs"
  by (simp add: sorted_desc_def)

lemma filter_take_descending:
  fixes f :: "'a \<Rightarrow> real"
  assumes "sorted_wrt (\<lambda>a b. f b \<le> f a) ys"
  shows "filter (\<lambda>c. t \<le> f c) (take n ys) = take n (filter (\<lambda>c. t \<le> f c) ys)"
  using assms
proof (induction ys arbitrary: n)
  case Nil
  then show ?case by simp
next
  case (Cons y ys)
  show ?case
  proof (cases "t \<le> f y")
    case True
    with Cons show ?thesis by (cases n) simp_all
  next
    case False
    with Cons.prems have "\<forall>z \<in> set ys. \<not> t \<le> f z" by auto
    then have e: "filter (\<lambda>c. t \<le> f c) ys = []" by (simp add: filter_empty_conv)
    have "set (take (n - 1) ys) \<subseteq> set ys" by (rule set_take_subset)
    with \<open>\<forall>z \<in> set ys. \<not> t \<le> f z\<close> have "\<forall>z \<in> set (take (n - 1) ys). \<not> t \<le> f z" by blast
    then have e': "filter (\<lambda>c. t \<le> f c) (take (n - 1) ys) = []" by (simp add: filter_empty_conv)
    from False e e' show ?thesis by (cases n) simp_all
  qed
qed

lemma process_hands:
  "fst (process contourArea moments convexHull self contours fs) =
     map (\<lambda>c. extract_hand_info_from_contour moments convexHull c fs)
       (filter (\<lambda>c. 2000 \<le> contourArea c) (take 2 (sorted_desc contourArea contours)))"
  by (simp add: process_def Let_def collect_hands_filter sorted_desc_def)

text \<open>
  Claim C1. For every list of contours, \<open>process\<close> returns at most two hands: the hands
  of the contours that are among the first two in descending order of area and have an
  area of at least 2000. Cutting the sorted list to two and then filtering gives the same
  contours as filtering and then cutting to two, so a contour below the threshold never
  takes the place of one above it. The sorted list is a permutation of the contours in
  descending order of area.
\<close>

theorem contour_selector_two_largest:
  fixes contourArea :: "'c \<Rightarrow> real"
  shows "fst (process contourArea moments convexHull self contours fs) =
       map (\<lambda>c. extract_hand_info_from_contour moments convexHull c fs)
         (filter (\<lambda>c. 2000 \<le> contourArea c) (take 2 (sorted_desc contourArea contours))) \<and>
     filter (\<lambda>c. 2000 \<le> contourArea c) (take 2 (sorted_desc contourArea contours)) =
       take 2 (filter (\<lambda>c. 2000 \<le> contourArea c) (sorted_desc contourArea contours)) \<and>
     length (fst (process contourArea moments convexHull self contours fs)) \<le> 2 \<and>
     mset (sorted_desc contourArea contours) = mset contours \<and>
     sorted_wrt (\<lambda>a b. contourArea b \<le> contourArea a) (sorted_desc contourArea contours)"
proof -
  have d: "sorted_wrt (\<lambda>a b. contourArea b \<le> contourArea a) (sorted_desc contourArea contours)"
    by (rule sorted_desc_descending)
  have sw: "filter (\<lambda>c. 2000 \<le> contourArea c) (take 2 (sorted_desc contourArea contours)) =
       take 2 (filter (\<lambda>c. 2000 \<le> contourArea c) (sorted_desc contourArea contours))"
    using d by (rule filter_take_descending)
  have "length (take 2 (filter (\<lambda>c. 2000 \<le> contourArea c) (sorted_desc contourArea contours))) \<le> 2"
    by simp
  then have len: "length (fst (process contourArea moments convexHull self contours fs)) \<le> 2"
    unfolding process_hands sw by simp
  from process_hands sw len mset_sorted_desc d show ?thesis by blast
qed

text \<open>
  A deque of capacity \<open>n\<close> holding at most \<open>n\<close> elements gains the new element at its
  end and, when full, loses its oldest one.
\<close>

lemma deque_append_window:
  "length d \<le> n \<Longrightarrow> 0 < n \<Longrightarrow>
   deque_append n d x = (if length d = n then tl d @ [x] else d @ [x]) \<and>
   length (deque_append n d x) \<le> n"
  by (cases d) (auto simp: deque_append_def)

lemma process_history_some_contour:
  "contours \<noteq> [] \<Longrightarrow>
   history (snd (process contourArea moments convexHull self contours fs)) =
     deque_append 6 (history self) (fst (process contourArea moments convexHull self contours fs))"
  by (simp add: process_def Let_def)

text \<open>
  Claim C7. Every call of \<open>process\<close> should append the frame's hand list to the history.
  A call on a frame without contours returns before the append and leaves the history as
  it was, while a call on a frame whose only contour is below the area threshold appends
  its empty hand list.
\<close>

theorem process_no_contours_skips_history:
  "process (\<lambda>c::unit. 0) (\<lambda>c. (0, 0, 0)) (\<lambda>c. []) \<lparr> history = [] \<rparr> [] (480, 640) =
     ([], \<lparr> history = [] \<rparr>) \<and>
   history (snd (process (\<lambda>c::unit. 0) (\<lambda>c. (0, 0, 0)) (\<lambda>c. []) \<lparr> history = [] \<rparr> [()] (480, 640))) =
     [[]]"
  by (simp add: process_def Let_def sorted_desc_def deque_append_def)

section \<open>The gesture derivation stage: distances to the thumb\<close>

lemma and_then_Inr: "and_then r f = Inr v \<longleftrightarrow> (\<exists>x. r = Inr x \<and> f x = Inr v)"
  by (cases r) (simp_all add: and_then_def)

lemma diag_pos:
  assumes "0 < w" "0 < h"
  shows "0 < frame_diagonal (h, w)"
proof -
  from assms have "0 < w * w" "0 < h * h" by simp_all
  then have "0 < w * w + h * h" by linarith
  then have "0 < real_of_int (w * w + h * h)" by (simp only: of_int_0_less_iff)
  then have "0 < sqrt (real_of_int (w * w + h * h))" by (simp only: real_sqrt_gt_0_iff)
  then show ?thesis by (simp add: frame_diagonal_def)
qed

lemma norm_tip_total:
  assumes "0 < w" "0 < h"
  shows "\<exists>r. norm_tip (h, w) tip = Inr r"
  using assms by (cases tip) (simp_all add: norm_tip_def norm_point_def py_div_def and_then_def)

lemma update_fresh_key: "k \<notin> fst ` set al \<Longrightarrow> AList.update k v al = al @ [(k, v)]"
  by (induction al) auto

lemma finger_dists_total:
  "diag \<noteq> 0 \<Longrightarrow> \<exists>dm'. finger_dists diag t named dm = Inr dm'"
proof (induction named arbitrary: dm)
  case Nil
  then show ?case by simp
next
  case (Cons a named)
  obtain fname pt where a: "a = (fname, pt)" by (cases a)
  from Cons show ?case unfolding a by (simp add: Let_def py_div_def and_then_def)
qed

lemma finger_dists_keys_distinct:
  "finger_dists diag t named dm = Inr dm' \<Longrightarrow> distinct (map fst dm) \<Longrightarrow> distinct (map fst dm')"
proof (induction named arbitrary: dm)
  case Nil
  then show ?case by simp
next
  case (Cons a named)
  obtain fname pt where a: "a = (fname, pt)" by (cases a)
  show ?case
  proof (cases "fname = ''thumb''")
    case True
    with Cons.prems Cons.IH [of dm] show ?thesis unfolding a by simp
  next
    case False
    with Cons.prems(1) obtain v where
      r: "finger_dists diag t named (AList.update fname v dm) = Inr dm'"
      unfolding a by (auto simp: Let_def and_then_Inr)
    from Cons.prems(2) have "distinct (map fst (AList.update fname v dm))"
      by (simp add: distinct_update)
    with r show ?thesis by (rule Cons.IH)
  qed
qed

lemma finger_dists_distinct_input:
  assumes "diag \<noteq> 0" "distinct (map fst named)" "fst ` set dm \<inter> fst ` set named = {}"
  shows "finger_dists diag t named dm =
     Inr (dm @ map (\<lambda>(fname, pt). (fname, dist_px pt t / diag))
                   (filter (\<lambda>(fname, pt). fname \<noteq> ''thumb'') named))"
  using assms
proof (induction named arbitrary: dm)
  case Nil
  then show ?case by simp
next
  case (Cons a named)
  obtain fname pt where a: "a = (fname, pt)" by (cases a)
  from Cons.prems have d: "distinct (map fst named)" and nk: "fname \<notin> fst ` set named"
    and fr: "fname \<notin> fst ` set dm" and dj: "fst ` set dm \<inter> fst ` set named = {}"
    unfolding a by auto
  show ?case
  proof (cases "fname = ''thumb''")
    case True
    with Cons.IH [OF Cons.prems(1) d dj] show ?thesis unfolding a by simp
  next
    case False
    let ?v = "hypot (fst pt - fst t) (snd pt - snd t) / diag"
    have u: "AList.update fname ?v dm = dm @ [(fname, ?v)]"
      using fr by (rule update_fresh_key)
    have dj': "fst ` set (dm @ [(fname, ?v)]) \<inter> fst ` set named = {}"
      using dj nk by auto
    from Cons.IH [OF Cons.prems(1) d dj'] False Cons.prems(1) show ?thesis
      unfolding a by (simp add: Let_def py_div_def and_then_def u dist_px_def)
  qed
qed

section \<open>The gesture derivation stage: the record of one hand\<close>

lemma derive_hand_Inr:
  assumes "derive_hand t (h, w) info = Inr n"
  shows "\<exists>index_n thumb_n fdn finger_min dn.
     norm_tip (h, w) (index_tip info) = Inr index_n \<and>
     norm_tip (h, w) (thumb_tip info) = Inr thumb_n \<and>
     finger_stage t (frame_diagonal (h, w)) info = Inr (fdn, finger_min) \<and>
     py_div (distance_index_thumb info) (frame_diagonal (h, w)) = Inr dn \<and>
     finger_dist_norm n = fdn \<and>
     pinch_finger n = (case finger_min of None \<Rightarrow> None
                       | Some f \<Rightarrow> if f \<noteq> [] then Some f else None) \<and>
     pinch_distance_norm n = (case pinch_finger n of None \<Rightarrow> None
                       | Some f \<Rightarrow> (case fdn of None \<Rightarrow> None | Some dm \<Rightarrow> map_of dm f)) \<and>
     side n = (case center info of
                 Some (cx, cy) \<Rightarrow>
                   Some (if real_of_int cx < real_of_int w / 2 then ''left'' else ''right'')
               | None \<Rightarrow> None) \<and>
     base n = info"
  using assms
  by (auto simp: derive_hand_def Let_def and_then_def split: sum.splits prod.splits
      cong: option.case_cong)

lemma finger_stage_total:
  assumes "diag \<noteq> 0"
  shows "\<exists>fdn finger_min. finger_stage t diag info = Inr (fdn, finger_min)"
proof (cases "thumb_tip info")
  case None
  then show ?thesis by (simp add: finger_stage_def)
next
  case (Some tp)
  show ?thesis
  proof (cases "fingertips_named info")
    case None
    with Some show ?thesis by (simp add: finger_stage_def)
  next
    case (Some named)
    from finger_dists_total [OF assms] obtain dm where
      "finger_dists diag tp named [] = Inr dm" by blast
    with Some \<open>thumb_tip info = Some tp\<close> show ?thesis
      by (simp add: finger_stage_def and_then_def)
  qed
qed

lemma derive_hand_total:
  assumes "0 < w" "0 < h"
  shows "\<exists>n. derive_hand t (h, w) info = Inr n"
proof -
  from diag_pos [OF assms] have dz: "frame_diagonal (h, w) \<noteq> 0" by simp
  from norm_tip_total [OF assms] obtain index_n where
    a: "norm_tip (h, w) (index_tip info) = Inr index_n" by blast
  from norm_tip_total [OF assms] obtain thumb_n where
    b: "norm_tip (h, w) (thumb_tip info) = Inr thumb_n" by blast
  from finger_stage_total [OF dz] obtain fdn finger_min where
    c: "finger_stage t (frame_diagonal (h, w)) info = Inr (fdn, finger_min)" by blast
  from a b c dz show ?thesis
    by (simp add: derive_hand_def Let_def and_then_def py_div_def)
qed

lemma derive_hand_intro:
  assumes "norm_tip (h, w) (index_tip info) = Inr index_n"
    and "norm_tip (h, w) (thumb_tip info) = Inr thumb_n"
    and "finger_stage t (frame_diagonal (h, w)) info = Inr (fdn, finger_min)"
    and "py_div (distance_index_thumb info) (frame_diagonal (h, w)) = Inr dn"
  shows "derive_hand t (h, w) info =
     Inr \<lparr> base = info, index_norm = index_n, thumb_norm = thumb_n,
           finger_dist_norm = fdn, distance_norm = dn,
           pinch_finger = (case finger_min of None \<Rightarrow> None
                           | Some f \<Rightarrow> if f \<noteq> [] then Some f else None),
           pinch_distance_norm =
             (case (case finger_min of None \<Rightarrow> None
                    | Some f \<Rightarrow> if f \<noteq> [] then Some f else None) of
                None \<Rightarrow> None
              | Some f \<Rightarrow> (case fdn of None \<Rightarrow> None | Some dm \<Rightarrow> map_of dm f)),
           side = (case center info of
                     Some (cx, cy) \<Rightarrow>
                       Some (if real_of_int cx < real_of_int w / 2 then ''left'' else ''right'')
                   | None \<Rightarrow> None) \<rparr>"
  by (simp add: derive_hand_def Let_def and_then_def assms)

lemma half_width: "(real_of_int cx < real_of_int w / 2) = (2 * cx < w)"
proof -
  have "(real_of_int cx < real_of_int w / 2) = (real_of_int (2 * cx) < real_of_int w)"
    by (simp add: field_simps)
  also have "\<dots> = (2 * cx < w)" by (simp only: of_int_less_iff)
  finally show ?thesis .
qed

text \<open>
  Claim C6. On a frame of positive width and height the stage returns for every hand with
  a center, and \<open>side\<close> is \<open>left\<close> when \<open>center.x < w/2\<close> and \<open>right\<close> otherwise, so
  \<open>right\<close> for \<open>center.x = w/2\<close>. Two hands whose centers have the same horizontal
  coordinate get the same side, whatever their other fields are.
\<close>

theorem side_from_center_x:
  assumes "0 < w" "0 < h" "center info = Some (cx, cy)" "center info' = Some (cx, cy')"
  shows "\<exists>n n'. normalize_hand (h, w) info = Inr n \<and> normalize_hand (h, w) info' = Inr n' \<and>
           side n = Some (if 2 * cx < w then ''left'' else ''right'') \<and>
           side n' = side n \<and>
           (2 * cx = w \<longrightarrow> side n = Some ''right'')"
proof -
  from derive_hand_total [OF assms(1,2)] obtain n where
    n: "derive_hand (5 / 100) (h, w) info = Inr n" by blast
  from derive_hand_total [OF assms(1,2)] obtain n' where
    n': "derive_hand (5 / 100) (h, w) info' = Inr n'" by blast
  from derive_hand_Inr [OF n] assms(3) have
    s: "side n = Some (if 2 * cx < w then ''left'' else ''right'')"
    by (auto simp: half_width)
  from derive_hand_Inr [OF n'] assms(4) have
    s': "side n' = Some (if 2 * cx < w then ''left'' else ''right'')"
    by (auto simp: half_width)
  from s have tie: "2 * cx = w \<longrightarrow> side n = Some ''right''" by simp
  from n n' s s' tie show ?thesis
    unfolding normalize_hand_def by (intro exI [of _ n] exI [of _ n']) simp
qed

theorem side_from_center_x_witness:
  "(0::int) < 640 \<and> (0::int) < 480 \<and>
   map_sum id side (normalize_hand (480, 640)
      \<lparr> detected = True, landmarks = None, center = Some (320, 100), fingertips = [],
        fingertips_named = None, index_tip = None, thumb_tip = None,
        distance_index_thumb = 0, hand_size_norm = None \<rparr>) = Inr (Some ''right'') \<and>
   map_sum id side (normalize_hand (480, 640)
      \<lparr> detected = True, landmarks = None, center = Some (320, 7), fingertips = [(1, 2)],
        fingertips_named = None, index_tip = None, thumb_tip = None,
        distance_index_thumb = 0, hand_size_norm = None \<rparr>) = Inr (Some ''right'')"
proof -
  from side_from_center_x [of 640 480
      "\<lparr> detected = True, landmarks = None, center = Some (320, 100), fingertips = [],
        fingertips_named = None, index_tip = None, thumb_tip = None,
        distance_index_thumb = 0, hand_size_norm = None \<rparr>" 320 100
      "\<lparr> detected = True, landmarks = None, center = Some (320, 7), fingertips = [(1, 2)],
        fingertips_named = None, index_tip = None, thumb_tip = None,
        distance_index_thumb = 0, hand_size_norm = None \<rparr>" 7]
  obtain n n' where "normalize_hand (480, 640)
      \<lparr> detected = True, landmarks = None, center = Some (320, 100), fingertips = [],
        fingertips_named = None, index_tip = None, thumb_tip = None,
        distance_index_thumb = 0, hand_size_norm = None \<rparr> = Inr n"
    "normalize_hand (480, 640)
      \<lparr> detected = True, landmarks = None, center = Some (320, 7), fingertips = [(1, 2)],
        fingertips_named = None, index_tip = None, thumb_tip = None,
        distance_index_thumb = 0, hand_size_norm = None \<rparr> = Inr n'"
    "side n = Some ''right''" "side n' = side n"
    by auto
  then show ?thesis by simp
qed

section \<open>Pinch selection\<close>

lemma pinch_select_monotone:
  assumes "pinch_select t1 dm = Some f" "t1 \<le> t2"
  shows "pinch_select t2 dm = Some f"
proof -
  from assms(1) have ne: "dm \<noteq> []"
    by (auto simp: pinch_select_def split: if_splits)
  with assms(1) have lt: "snd (hd (sort_key snd dm)) < t1" and f: "f = fst (hd (sort_key snd dm))"
    by (auto simp: pinch_select_def Let_def split: if_splits)
  from lt assms(2) have "snd (hd (sort_key snd dm)) < t2" by simp
  with ne f show ?thesis by (simp add: pinch_select_def Let_def)
qed

lemma finger_stage_threshold:
  assumes "finger_stage t1 d info = Inr (fdn, fm1)"
  shows "\<exists>fm2. finger_stage t2 d info = Inr (fdn, fm2) \<and>
           (t1 \<le> t2 \<longrightarrow> fm1 \<noteq> None \<longrightarrow> fm2 = fm1)"
proof (cases "\<exists>tp named. thumb_tip info = Some tp \<and> fingertips_named info = Some named \<and> named \<noteq> []")
  case True
  then obtain tp named where i: "thumb_tip info = Some tp" "fingertips_named info = Some named"
    "named \<noteq> []" by blast
  with assms obtain dm where dm: "finger_dists d tp named [] = Inr dm" "fdn = Some dm"
    "fm1 = pinch_select t1 dm"
    by (auto simp: finger_stage_def and_then_Inr)
  from i dm have "finger_stage t2 d info = Inr (fdn, pinch_select t2 dm)"
    by (simp add: finger_stage_def and_then_def)
  moreover have "pinch_select t2 dm = fm1" if "t1 \<le> t2" "fm1 \<noteq> None"
  proof -
    from that(2) obtain f where f: "fm1 = Some f" by (cases fm1) simp_all
    with dm(3) have "pinch_select t1 dm = Some f" by simp
    from pinch_select_monotone [OF this that(1)] f show ?thesis by simp
  qed
  ultimately show ?thesis by blast
next
  case False
  have n: "finger_stage t d info = Inr (None, None)" for t
  proof (cases "thumb_tip info")
    case None
    then show ?thesis by (simp add: finger_stage_def)
  next
    case (Some tp)
    show ?thesis
    proof (cases "fingertips_named info")
      case None
      with Some show ?thesis by (simp add: finger_stage_def)
    next
      case (Some named)
      with False \<open>thumb_tip info = Some tp\<close> have "named = []" by blast
      with Some \<open>thumb_tip info = Some tp\<close> show ?thesis by (simp add: finger_stage_def)
    qed
  qed
  from assms n [of t1] have "fdn = None" "fm1 = None" by simp_all
  with n [of t2] show ?thesis by simp
qed

text \<open>
  Claim C8. For a fixed hand and frame, when the stage run with the pinch threshold \<open>t1\<close>
  sets \<open>pinch_finger\<close>, the stage run with any threshold \<open>t2 \<ge> t1\<close> returns too, with the
  same distance map and the same \<open>pinch_finger\<close>.
\<close>

theorem pinch_monotone_in_threshold:
  assumes "t1 \<le> t2" "derive_hand t1 fs info = Inr n1" "pinch_finger n1 \<noteq> None"
  shows "\<exists>n2. derive_hand t2 fs info = Inr n2 \<and> pinch_finger n2 \<noteq> None \<and>
           pinch_finger n2 = pinch_finger n1 \<and> finger_dist_norm n2 = finger_dist_norm n1"
proof -
  obtain h w where fs: "fs = (h, w)" by (cases fs)
  from derive_hand_Inr [OF assms(2) [unfolded fs]] obtain index_n thumb_n fdn fm1 dn where
    a: "norm_tip (h, w) (index_tip info) = Inr index_n"
    and b: "norm_tip (h, w) (thumb_tip info) = Inr thumb_n"
    and c: "finger_stage t1 (frame_diagonal (h, w)) info = Inr (fdn, fm1)"
    and d: "py_div (distance_index_thumb info) (frame_diagonal (h, w)) = Inr dn"
    and e: "finger_dist_norm n1 = fdn"
    and p: "pinch_finger n1 = (case fm1 of None \<Rightarrow> None
                       | Some f \<Rightarrow> if f \<noteq> [] then Some f else None)"
    by blast
  from p assms(3) have fm1: "fm1 \<noteq> None" by (cases fm1) simp_all
  from finger_stage_threshold [OF c, of t2] assms(1) fm1 have
    c2: "finger_stage t2 (frame_diagonal (h, w)) info = Inr (fdn, fm1)" by auto
  from derive_hand_intro [OF a b c2 d] obtain n2 where
    n2: "derive_hand t2 (h, w) info = Inr n2" "finger_dist_norm n2 = fdn"
     "pinch_finger n2 = (case fm1 of None \<Rightarrow> None
                       | Some f \<Rightarrow> if f \<noteq> [] then Some f else None)"
    by simp
  from n2 p e assms(3) show ?thesis unfolding fs by auto
qed

lemma frame_diagonal_640_480: "frame_diagonal (480, 640) = 800"
proof -
  have "sqrt 640000 = (800::real)"
    by (rule real_sqrt_unique) simp_all
  then show ?thesis by (simp add: frame_diagonal_def)
qed

lemma hypot_3_4: "hypot 3 4 = 5"
proof -
  have "sqrt 25 = (5::real)"
    by (rule real_sqrt_unique) simp_all
  then show ?thesis by (simp add: hypot_def)
qed

lemma hypot_300_400: "hypot 300 400 = 500"
proof -
  have "sqrt 250000 = (500::real)"
    by (rule real_sqrt_unique) simp_all
  then show ?thesis by (simp add: hypot_def)
qed

theorem pinch_monotone_in_threshold_witness:
  "(1 / 100 :: real) \<le> 5 / 100 \<and>
   map_sum id pinch_finger (derive_hand (1 / 100) (480, 640)
     \<lparr> detected = True, landmarks = None, center = Some (1, 2),
       fingertips = [(0, 0), (3, 4)],
       fingertips_named = Some [(''thumb'', (0, 0)), (''index'', (3, 4))],
       index_tip = Some (3, 4), thumb_tip = Some (0, 0),
       distance_index_thumb = 5, hand_size_norm = None \<rparr>) = Inr (Some ''index'') \<and>
   map_sum id pinch_finger (derive_hand (5 / 100) (480, 640)
     \<lparr> detected = True, landmarks = None, center = Some (1, 2),
       fingertips = [(0, 0), (3, 4)],
       fingertips_named = Some [(''thumb'', (0, 0)), (''index'', (3, 4))],
       index_tip = Some (3, 4), thumb_tip = Some (0, 0),
       distance_index_thumb = 5, hand_size_norm = None \<rparr>) = Inr (Some ''index'')"
proof -
  let ?I = "\<lparr> detected = True, landmarks = None, center = Some (1, 2),
       fingertips = [(0, 0), (3, 4)],
       fingertips_named = Some [(''thumb'', (0, 0)), (''index'', (3, 4))],
       index_tip = Some (3, 4), thumb_tip = Some (0, 0),
       distance_index_thumb = 5, hand_size_norm = None \<rparr>"
  have le: "(1 / 100 :: real) \<le> 5 / 100" by simp
  have a: "map_sum id pinch_finger (derive_hand (1 / 100) (480, 640) ?I) = Inr (Some ''index'')"
    by (simp add: derive_hand_def finger_stage_def norm_tip_def norm_point_def py_div_def
        and_then_def Let_def pinch_select_def frame_diagonal_640_480 hypot_3_4)
  then obtain n1 where n1: "derive_hand (1 / 100) (480, 640) ?I = Inr n1"
    "pinch_finger n1 = Some ''index''"
    by (cases "derive_hand (1 / 100) (480, 640) ?I") auto
  then have p: "pinch_finger n1 \<noteq> None" by simp
  from pinch_monotone_in_threshold [OF le n1(1) p] n1(2) obtain n2 where
    "derive_hand (5 / 100) (480, 640) ?I = Inr n2" "pinch_finger n2 = Some ''index''"
    by auto
  then have "map_sum id pinch_finger (derive_hand (5 / 100) (480, 640) ?I) = Inr (Some ''index'')"
    by simp
  with le a show ?thesis by blast
qed

lemma finger_stage_Some:
  assumes "finger_stage t d info = Inr (Some dm, fm)"
  shows "distinct (map fst dm) \<and> fm = pinch_select t dm"
proof (cases "thumb_tip info")
  case None
  with assms show ?thesis by (simp add: finger_stage_def)
next
  case (Some tp)
  show ?thesis
  proof (cases "fingertips_named info")
    case None
    with Some assms show ?thesis by (simp add: finger_stage_def)
  next
    case (Some named)
    show ?thesis
    proof (cases "named = []")
      case True
      with Some \<open>thumb_tip info = Some tp\<close> assms show ?thesis by (simp add: finger_stage_def)
    next
      case False
      with Some \<open>thumb_tip info = Some tp\<close> assms have
        fd: "finger_dists d tp named [] = Inr dm" and fm: "fm = pinch_select t dm"
        by (auto simp: finger_stage_def and_then_Inr)
      from finger_dists_keys_distinct [OF fd] have "distinct (map fst dm)" by simp
      with fm show ?thesis by simp
    qed
  qed
qed

lemma first_sorted_is_min:
  fixes dm :: "(string \<times> real) list"
  assumes "dm \<noteq> []"
  shows "hd (sort_key snd dm) \<in> set dm \<and> snd (hd (sort_key snd dm)) = Min (snd ` set dm)"
proof -
  from hd_sort_key_least [OF assms, of snd] have
    m: "hd (sort_key snd dm) \<in> set dm" and
    le: "\<forall>p \<in> set dm. snd (hd (sort_key snd dm)) \<le> snd p" by blast+
  have "Min (snd ` set dm) = snd (hd (sort_key snd dm))"
  proof (rule Min_eqI)
    show "finite (snd ` set dm)" by simp
    show "snd (hd (sort_key snd dm)) \<le> y" if "y \<in> snd ` set dm" for y
      using that le by auto
    show "snd (hd (sort_key snd dm)) \<in> snd ` set dm" using m by (rule imageI)
  qed
  with m show ?thesis by simp
qed

text \<open>
  Claim C4. When the stage returns a hand whose \<open>finger_dist_norm\<close> map is not empty and
  no finger is named by the empty string (as for the names thumb, index, middle, ring and
  pinky), \<open>pinch_finger\<close> is set exactly when the least value of the map is below 0.05;
  then it names an entry holding that least value and \<open>pinch_distance_norm\<close> is that
  value, and otherwise \<open>pinch_finger\<close> and \<open>pinch_distance_norm\<close> are both absent.
\<close>

theorem pinch_is_closest_finger:
  assumes "normalize_hand fs info = Inr n" "finger_dist_norm n = Some dm" "dm \<noteq> []"
    and "[] \<notin> fst ` set dm"
  shows "(pinch_finger n \<noteq> None \<longleftrightarrow> Min (snd ` set dm) < 5 / 100) \<and>
    (Min (snd ` set dm) < 5 / 100 \<longrightarrow>
       (\<exists>f. pinch_finger n = Some f \<and> (f, Min (snd ` set dm)) \<in> set dm \<and>
            pinch_distance_norm n = Some (Min (snd ` set dm)))) \<and>
    (\<not> Min (snd ` set dm) < 5 / 100 \<longrightarrow>
       pinch_finger n = None \<and> pinch_distance_norm n = None)"
proof -
  obtain h w where fs: "fs = (h, w)" by (cases fs)
  from assms(1) have d: "derive_hand (5 / 100) (h, w) info = Inr n"
    unfolding normalize_hand_def fs .
  from derive_hand_Inr [OF d] obtain fdn fm where
    c0: "finger_stage (5 / 100) (frame_diagonal (h, w)) info = Inr (fdn, fm)"
    and e: "finger_dist_norm n = fdn"
    and p: "pinch_finger n = (case fm of None \<Rightarrow> None
                       | Some f \<Rightarrow> if f \<noteq> [] then Some f else None)"
    and pd0: "pinch_distance_norm n = (case pinch_finger n of None \<Rightarrow> None
                       | Some f \<Rightarrow> (case fdn of None \<Rightarrow> None | Some dm \<Rightarrow> map_of dm f))"
    by blast
  from e assms(2) have fdn: "fdn = Some dm" by simp
  from c0 have c: "finger_stage (5 / 100) (frame_diagonal (h, w)) info = Inr (Some dm, fm)"
    unfolding fdn .
  from pd0 have pd: "pinch_distance_norm n = (case pinch_finger n of None \<Rightarrow> None
                       | Some f \<Rightarrow> map_of dm f)"
    unfolding fdn by (simp cong: option.case_cong)
  from finger_stage_Some [OF c] have dist: "distinct (map fst dm)"
    and fm: "fm = pinch_select (5 / 100) dm" by simp_all
  let ?e = "hd (sort_key snd dm)"
  from first_sorted_is_min [OF assms(3)] have m: "?e \<in> set dm"
    and mn: "snd ?e = Min (snd ` set dm)" by simp_all
  from m assms(4) have nn: "fst ?e \<noteq> []" by force
  from m have pr: "(fst ?e, snd ?e) \<in> set dm" by simp
  from dist pr have mo: "map_of dm (fst ?e) = Some (snd ?e)" by (rule map_of_is_SomeI)
  show ?thesis
  proof (cases "Min (snd ` set dm) < 5 / 100")
    case True
    with mn assms(3) have "fm = Some (fst ?e)"
      unfolding fm by (simp add: pinch_select_def Let_def)
    with p nn have pf: "pinch_finger n = Some (fst ?e)" by simp
    with pd mo mn have "pinch_distance_norm n = Some (Min (snd ` set dm))" by simp
    moreover from pr mn have "(fst ?e, Min (snd ` set dm)) \<in> set dm" by simp
    ultimately show ?thesis using True pf by simp
  next
    case False
    with mn assms(3) have "fm = None"
      unfolding fm by (simp add: pinch_select_def Let_def)
    with p have pf: "pinch_finger n = None" by simp
    with pd have "pinch_distance_norm n = None" by simp
    with pf False show ?thesis by simp
  qed
qed

theorem pinch_is_closest_finger_witness:
  "map_sum id pinch_finger (normalize_hand (480, 640)
     \<lparr> detected = True, landmarks = None, center = Some (1, 2),
       fingertips = [(0, 0), (3, 4), (300, 400)],
       fingertips_named = Some [(''thumb'', (0, 0)), (''index'', (3, 4)), (''middle'', (300, 400))],
       index_tip = Some (3, 4), thumb_tip = Some (0, 0),
       distance_index_thumb = 5, hand_size_norm = None \<rparr>) = Inr (Some ''index'') \<and>
   map_sum id pinch_distance_norm (normalize_hand (480, 640)
     \<lparr> detected = True, landmarks = None, center = Some (1, 2),
       fingertips = [(0, 0), (3, 4), (300, 400)],
       fingertips_named = Some [(''thumb'', (0, 0)), (''index'', (3, 4)), (''middle'', (300, 400))],
       index_tip = Some (3, 4), thumb_tip = Some (0, 0),
       distance_index_thumb = 5, hand_size_norm = None \<rparr>) = Inr (Some (1 / 160)) \<and>
   Min (snd ` set [(''index'', 1 / 160), (''middle'', 5 / 8 :: real)]) < 5 / 100"
proof -
  let ?I = "\<lparr> detected = True, landmarks = None, center = Some (1, 2),
       fingertips = [(0, 0), (3, 4), (300, 400)],
       fingertips_named = Some [(''thumb'', (0, 0)), (''index'', (3, 4)), (''middle'', (300, 400))],
       index_tip = Some (3, 4), thumb_tip = Some (0, 0),
       distance_index_thumb = 5, hand_size_norm = None \<rparr>"
  let ?dm = "[(''index'', 1 / 160), (''middle'', 5 / 8 :: real)]"
  have a: "map_sum id finger_dist_norm (normalize_hand (480, 640) ?I) = Inr (Some ?dm)"
    by (simp add: normalize_hand_def derive_hand_def finger_stage_def norm_tip_def norm_point_def
        py_div_def and_then_def Let_def frame_diagonal_640_480 hypot_3_4 hypot_300_400)
  then obtain n where n: "normalize_hand (480, 640) ?I = Inr n" "finger_dist_norm n = Some ?dm"
    by (cases "normalize_hand (480, 640) ?I") auto
  have ne: "?dm \<noteq> []" by simp
  have nm: "[] \<notin> fst ` set ?dm" by simp
  have mn: "Min (snd ` set ?dm) = 1 / 160" by simp
  from pinch_is_closest_finger [OF n ne nm] have
    "pinch_finger n \<noteq> None \<longleftrightarrow> Min (snd ` set ?dm) < 5 / 100"
    "Min (snd ` set ?dm) < 5 / 100 \<longrightarrow>
       (\<exists>f. pinch_finger n = Some f \<and> (f, Min (snd ` set ?dm)) \<in> set ?dm \<and>
            pinch_distance_norm n = Some (Min (snd ` set ?dm)))"
    by blast+
  then have "pinch_finger n = Some ''index''" "pinch_distance_norm n = Some (1 / 160)"
    unfolding mn by auto
  with n(1) mn show ?thesis by simp
qed

section \<open>The distance map\<close>

lemma dist_px_nonneg: "0 \<le> dist_px p q"
  by (simp add: dist_px_def hypot_def)

text \<open>
  On a frame of positive width and height, a hand whose \<open>thumb_tip\<close> is set and whose
  \<open>fingertips_named\<close> dictionary has an entry other than the thumb gets a distance map with
  one entry for each named finger other than the thumb, in the order of the dictionary.
\<close>

lemma finger_dists_with_thumb:
  assumes "0 < w" "0 < h"
    and "thumb_tip info = Some t"
    and "fingertips_named info = Some named"
    and "distinct (map fst named)"
    and "(fname, pt) \<in> set named" "fname \<noteq> ''thumb''"
  shows "\<exists>n dm. normalize_hand (h, w) info = Inr n \<and> finger_dist_norm n = Some dm \<and>
     dm = map (\<lambda>(fname, pt). (fname, dist_px pt t / frame_diagonal (h, w)))
              (filter (\<lambda>(fname, pt). fname \<noteq> ''thumb'') named) \<and>
     distinct (map fst dm) \<and>
     fst ` set dm = fst ` set named - {''thumb''} \<and>
     map_of dm fname = Some (dist_px pt t / frame_diagonal (h, w)) \<and>
     (\<forall>v \<in> snd ` set dm. 0 \<le> v)"
proof -
  let ?d = "frame_diagonal (h, w)"
  let ?dm = "map (\<lambda>(fname, pt). (fname, dist_px pt t / ?d))
              (filter (\<lambda>(fname, pt). fname \<noteq> ''thumb'') named)"
  from diag_pos [OF assms(1,2)] have dpos: "0 < ?d" .
  then have dz: "?d \<noteq> 0" by simp
  from assms(6) have ne: "named \<noteq> []" by auto
  have fd: "finger_dists ?d t named [] = Inr ([] @ ?dm)"
    using dz assms(5) by (rule finger_dists_distinct_input) simp
  from derive_hand_total [OF assms(1,2)] obtain n where
    n: "derive_hand (5 / 100) (h, w) info = Inr n" by blast
  from derive_hand_Inr [OF n] obtain fdn fm where
    c: "finger_stage (5 / 100) ?d info = Inr (fdn, fm)" and e: "finger_dist_norm n = fdn"
    by blast
  from c assms(3,4) ne fd have "fdn = Some ?dm"
    by (simp add: finger_stage_def and_then_def)
  with e have f: "finger_dist_norm n = Some ?dm" by simp
  have k: "map fst ?dm = filter (\<lambda>k. k \<noteq> ''thumb'') (map fst named)"
    by (induction named) auto
  from assms(5) have di: "distinct (map fst ?dm)"
    unfolding k by (rule distinct_filter)
  have ks: "fst ` set ?dm = fst ` set named - {''thumb''}"
  proof -
    have "fst ` set ?dm = set (map fst ?dm)" by (simp only: set_map)
    also have "\<dots> = set (map fst named) - {''thumb''}" unfolding k by auto
    finally show ?thesis by (simp only: set_map)
  qed
  from assms(6,7) have "(fname, dist_px pt t / ?d) \<in> set ?dm" by force
  with di have mo: "map_of ?dm fname = Some (dist_px pt t / ?d)" by (rule map_of_is_SomeI)
  have nn: "\<forall>v \<in> snd ` set ?dm. 0 \<le> v"
    using dpos by (auto simp: dist_px_nonneg)
  from n f di ks mo nn show ?thesis
    unfolding normalize_hand_def by blast
qed

section \<open>The landmark backend\<close>

lemma py_int_half: "py_int (real_of_int a / 2) = a sdiv 2"
proof (cases "0 \<le> a")
  case True
  have "\<lfloor>real_of_int a / real_of_int 2\<rfloor> = a div 2" by (rule floor_divide_of_int_eq)
  with True show ?thesis by (simp add: py_int_def signed_divide_int_def sgn_if)
next
  case False
  have "\<lceil>real_of_int a / real_of_int 2\<rceil> = - (- a div 2)" by (rule ceiling_divide_eq_div)
  with False show ?thesis by (simp add: py_int_def signed_divide_int_def sgn_if)
qed

lemma py_int_midpoint: "py_int ((real_of_int a + real_of_int b) / 2) = (a + b) sdiv 2"
  using py_int_half [of "a + b"] by simp

lemma mp_hand_info_21:
  assumes "length pts = 21" "frame_diagonal (h, w) \<noteq> 0"
  shows "mp_hand_info (h, w) pts =
     Inr \<lparr> detected = True, landmarks = Some pts,
           center = Some ((fst (pts ! 0) + fst (pts ! 9)) sdiv 2,
                          (snd (pts ! 0) + snd (pts ! 9)) sdiv 2),
           fingertips = [pts ! 4, pts ! 8, pts ! 12, pts ! 16, pts ! 20],
           fingertips_named = Some [(''thumb'', pts ! 4), (''index'', pts ! 8),
              (''middle'', pts ! 12), (''ring'', pts ! 16), (''pinky'', pts ! 20)],
           index_tip = Some (pts ! 8), thumb_tip = Some (pts ! 4),
           distance_index_thumb = dist_px (pts ! 8) (pts ! 4),
           hand_size_norm = Some (dist_px (pts ! 12) (pts ! 0) / frame_diagonal (h, w)) \<rparr>"
  using assms
  by (simp add: mp_hand_info_def subscript_def and_then_def py_div_def Let_def py_int_midpoint
      dist_px_def)

lemma length_pixel_points: "length (pixel_points fs lm) = length lm"
  by (cases fs) (simp add: pixel_points_def)

lemma mp_collect_all:
  assumes "\<forall>lm \<in> set lms. \<exists>info. mp_hand_info fs (pixel_points fs lm) = Inr info"
  shows "mp_collect fs lms hands_out =
     Inr (hands_out @ map (\<lambda>lm. projr (mp_hand_info fs (pixel_points fs lm))) lms)"
  using assms
proof (induction lms arbitrary: hands_out)
  case Nil
  then show ?case by simp
next
  case (Cons lm lms)
  from Cons.prems obtain info where i: "mp_hand_info fs (pixel_points fs lm) = Inr info"
    by auto
  from Cons.prems have r: "\<forall>lm \<in> set lms. \<exists>info. mp_hand_info fs (pixel_points fs lm) = Inr info"
    by simp
  from Cons.IH [OF r, of "hands_out @ [info]"] i show ?case
    by (simp add: and_then_def)
qed

text \<open>
  Claim C9. On a frame of positive width and height, when every hand of the landmark model
  has 21 landmarks, \<open>process\<close> returns one hand info per hand, in order, and with \<open>pts\<close>
  the pixel points of the hand: \<open>thumb_tip = pts[4]\<close>, \<open>index_tip = pts[8]\<close>, \<open>fingertips\<close> is
  \<open>[pts[4], pts[8], pts[12], pts[16], pts[20]]\<close>, \<open>fingertips_named\<close> maps thumb, index,
  middle, ring and pinky to these points, \<open>center\<close> is the midpoint of \<open>pts[0]\<close> and
  \<open>pts[9]\<close> with each coordinate truncated towards zero, and \<open>hand_size_norm\<close> is the
  distance of \<open>pts[12]\<close> to \<open>pts[0]\<close> divided by the frame diagonal.
\<close>

theorem landmark_index_mapping:
  assumes "0 < w" "0 < h" "\<forall>lm \<in> set lms. length lm = 21"
  shows "\<exists>hands. mp_process (h, w) lms = Inr hands \<and> length hands = length lms \<and>
     (\<forall>k < length lms.
        thumb_tip (hands ! k) = Some (pixel_points (h, w) (lms ! k) ! 4) \<and>
        index_tip (hands ! k) = Some (pixel_points (h, w) (lms ! k) ! 8) \<and>
        fingertips (hands ! k) =
          [pixel_points (h, w) (lms ! k) ! 4, pixel_points (h, w) (lms ! k) ! 8,
           pixel_points (h, w) (lms ! k) ! 12, pixel_points (h, w) (lms ! k) ! 16,
           pixel_points (h, w) (lms ! k) ! 20] \<and>
        fingertips_named (hands ! k) =
          Some [(''thumb'', pixel_points (h, w) (lms ! k) ! 4),
                (''index'', pixel_points (h, w) (lms ! k) ! 8),
                (''middle'', pixel_points (h, w) (lms ! k) ! 12),
                (''ring'', pixel_points (h, w) (lms ! k) ! 16),
                (''pinky'', pixel_points (h, w) (lms ! k) ! 20)] \<and>
        center (hands ! k) =
          Some ((fst (pixel_points (h, w) (lms ! k) ! 0) +
                 fst (pixel_points (h, w) (lms ! k) ! 9)) sdiv 2,
                (snd (pixel_points (h, w) (lms ! k) ! 0) +
                 snd (pixel_points (h, w) (lms ! k) ! 9)) sdiv 2) \<and>
        hand_size_norm (hands ! k) =
          Some (dist_px (pixel_points (h, w) (lms ! k) ! 12) (pixel_points (h, w) (lms ! k) ! 0)
                / frame_diagonal (h, w)) \<and>
        landmarks (hands ! k) = Some (pixel_points (h, w) (lms ! k)))"
proof -
  let ?g = "\<lambda>lm. projr (mp_hand_info (h, w) (pixel_points (h, w) lm))"
  from diag_pos [OF assms(1,2)] have dz: "frame_diagonal (h, w) \<noteq> 0" by simp
  have each: "mp_hand_info (h, w) (pixel_points (h, w) lm) =
     Inr \<lparr> detected = True, landmarks = Some (pixel_points (h, w) lm),
           center = Some ((fst (pixel_points (h, w) lm ! 0) + fst (pixel_points (h, w) lm ! 9)) sdiv 2,
                          (snd (pixel_points (h, w) lm ! 0) + snd (pixel_points (h, w) lm ! 9)) sdiv 2),
           fingertips = [pixel_points (h, w) lm ! 4, pixel_points (h, w) lm ! 8,
              pixel_points (h, w) lm ! 12, pixel_points (h, w) lm ! 16, pixel_points (h, w) lm ! 20],
           fingertips_named = Some [(''thumb'', pixel_points (h, w) lm ! 4),
              (''index'', pixel_points (h, w) lm ! 8),
              (''middle'', pixel_points (h, w) lm ! 12), (''ring'', pixel_points (h, w) lm ! 16),
              (''pinky'', pixel_points (h, w) lm ! 20)],
           index_tip = Some (pixel_points (h, w) lm ! 8),
           thumb_tip = Some (pixel_points (h, w) lm ! 4),
           distance_index_thumb = dist_px (pixel_points (h, w) lm ! 8) (pixel_points (h, w) lm ! 4),
           hand_size_norm = Some (dist_px (pixel_points (h, w) lm ! 12) (pixel_points (h, w) lm ! 0)
              / frame_diagonal (h, w)) \<rparr>"
    if "lm \<in> set lms" for lm
  proof -
    from that assms(3) have "length (pixel_points (h, w) lm) = 21"
      by (simp add: length_pixel_points)
    then show ?thesis using dz by (rule mp_hand_info_21)
  qed
  then have ok: "\<forall>lm \<in> set lms. \<exists>info. mp_hand_info (h, w) (pixel_points (h, w) lm) = Inr info"
    by blast
  from mp_collect_all [OF ok, of "[]"] have p: "mp_process (h, w) lms = Inr (map ?g lms)"
    by (simp add: mp_process_def)
  have len: "length (map ?g lms) = length lms" by simp
  have fields: "thumb_tip (map ?g lms ! k) = Some (pixel_points (h, w) (lms ! k) ! 4) \<and>
        index_tip (map ?g lms ! k) = Some (pixel_points (h, w) (lms ! k) ! 8) \<and>
        fingertips (map ?g lms ! k) =
          [pixel_points (h, w) (lms ! k) ! 4, pixel_points (h, w) (lms ! k) ! 8,
           pixel_points (h, w) (lms ! k) ! 12, pixel_points (h, w) (lms ! k) ! 16,
           pixel_points (h, w) (lms ! k) ! 20] \<and>
        fingertips_named (map ?g lms ! k) =
          Some [(''thumb'', pixel_points (h, w) (lms ! k) ! 4),
                (''index'', pixel_points (h, w) (lms ! k) ! 8),
                (''middle'', pixel_points (h, w) (lms ! k) ! 12),
                (''ring'', pixel_points (h, w) (lms ! k) ! 16),
                (''pinky'', pixel_points (h, w) (lms ! k) ! 20)] \<and>
        center (map ?g lms ! k) =
          Some ((fst (pixel_points (h, w) (lms ! k) ! 0) +
                 fst (pixel_points (h, w) (lms ! k) ! 9)) sdiv 2,
                (snd (pixel_points (h, w) (lms ! k) ! 0) +
                 snd (pixel_points (h, w) (lms ! k) ! 9)) sdiv 2) \<and>
        hand_size_norm (map ?g lms ! k) =
          Some (dist_px (pixel_points (h, w) (lms ! k) ! 12) (pixel_points (h, w) (lms ! k) ! 0)
                / frame_diagonal (h, w)) \<and>
        landmarks (map ?g lms ! k) = Some (pixel_points (h, w) (lms ! k))"
    if k: "k < length lms" for k
  proof -
    from k have "lms ! k \<in> set lms" by simp
    from each [OF this] k show ?thesis by simp
  qed
  from p len fields show ?thesis by blast
qed

theorem landmark_index_mapping_witness:
  "map_sum id (map thumb_tip) (mp_process (480, 640)
     [[(0 / 32, 0 / 24), (1 / 32, 1 / 24), (2 / 32, 2 / 24), (3 / 32, 3 / 24), (4 / 32,
       4 / 24), (5 / 32, 5 / 24), (6 / 32, 6 / 24), (7 / 32, 7 / 24), (8 / 32, 8 / 24),
       (9 / 32, 9 / 24), (10 / 32, 10 / 24), (11 / 32, 11 / 24), (12 / 32, 12 / 24), (13
       / 32, 13 / 24), (14 / 32, 14 / 24), (15 / 32, 15 / 24), (16 / 32, 16 / 24), (17 /
       32, 17 / 24), (18 / 32, 18 / 24), (19 / 32, 19 / 24), (20 / 32, 20 / 24)]]) = Inr [Some (80, 80)] \<and>
   map_sum id (map center) (mp_process (480, 640)
     [[(0 / 32, 0 / 24), (1 / 32, 1 / 24), (2 / 32, 2 / 24), (3 / 32, 3 / 24), (4 / 32,
       4 / 24), (5 / 32, 5 / 24), (6 / 32, 6 / 24), (7 / 32, 7 / 24), (8 / 32, 8 / 24),
       (9 / 32, 9 / 24), (10 / 32, 10 / 24), (11 / 32, 11 / 24), (12 / 32, 12 / 24), (13
       / 32, 13 / 24), (14 / 32, 14 / 24), (15 / 32, 15 / 24), (16 / 32, 16 / 24), (17 /
       32, 17 / 24), (18 / 32, 18 / 24), (19 / 32, 19 / 24), (20 / 32, 20 / 24)]]) = Inr [Some (90, 90)]"
proof -
  let ?lm = "[(0 / 32, 0 / 24), (1 / 32, 1 / 24), (2 / 32, 2 / 24), (3 / 32, 3 / 24), (4 / 32,
       4 / 24), (5 / 32, 5 / 24), (6 / 32, 6 / 24), (7 / 32, 7 / 24), (8 / 32, 8 / 24),
       (9 / 32, 9 / 24), (10 / 32, 10 / 24), (11 / 32, 11 / 24), (12 / 32, 12 / 24), (13
       / 32, 13 / 24), (14 / 32, 14 / 24), (15 / 32, 15 / 24), (16 / 32, 16 / 24), (17 /
       32, 17 / 24), (18 / 32, 18 / 24), (19 / 32, 19 / 24), (20 / 32, 20 / 24)] :: (real \<times> real) list"
  have pp: "pixel_points (480, 640) ?lm =
      [(0, 0), (20, 20), (40, 40), (60, 60), (80, 80), (100, 100), (120, 120), (140,
       140), (160, 160), (180, 180), (200, 200), (220, 220), (240, 240), (260, 260),
       (280, 280), (300, 300), (320, 320), (340, 340), (360, 360), (380, 380), (400,
       400)]"
    by (simp add: pixel_points_def py_int_def)
  have w: "(0::int) < 640" and h: "(0::int) < 480" by simp_all
  have pre: "\<forall>lm \<in> set [?lm]. length lm = 21" by simp
  from landmark_index_mapping [OF w h pre] obtain hands where
    p: "mp_process (480, 640) [?lm] = Inr hands" and l: "length hands = length [?lm]"
    and f: "\<forall>k < length [?lm].
        thumb_tip (hands ! k) = Some (pixel_points (480, 640) ([?lm] ! k) ! 4) \<and>
        center (hands ! k) =
          Some ((fst (pixel_points (480, 640) ([?lm] ! k) ! 0) +
                 fst (pixel_points (480, 640) ([?lm] ! k) ! 9)) sdiv 2,
                (snd (pixel_points (480, 640) ([?lm] ! k) ! 0) +
                 snd (pixel_points (480, 640) ([?lm] ! k) ! 9)) sdiv 2)"
    by blast
  have z: "(0::nat) < length [?lm]" by simp
  from f z have t: "thumb_tip (hands ! 0) = Some (pixel_points (480, 640) ([?lm] ! 0) ! 4)"
    and c: "center (hands ! 0) =
          Some ((fst (pixel_points (480, 640) ([?lm] ! 0) ! 0) +
                 fst (pixel_points (480, 640) ([?lm] ! 0) ! 9)) sdiv 2,
                (snd (pixel_points (480, 640) ([?lm] ! 0) ! 0) +
                 snd (pixel_points (480, 640) ([?lm] ! 0) ! 9)) sdiv 2)"
    by blast+
  have t': "thumb_tip (hands ! 0) = Some (80, 80)"
    unfolding t nth_Cons_0 pp by simp
  have c': "center (hands ! 0) = Some (90, 90)"
    unfolding c nth_Cons_0 pp by (simp add: signed_divide_int_def)
  from l have hs: "hands = [hands ! 0]" by (cases hands) simp_all
  have "map thumb_tip hands = [Some (80, 80)]" "map center hands = [Some (90, 90)]"
    by (subst hs, simp add: t', subst hs, simp add: c')
  then show ?thesis unfolding p by simp
qed

section \<open>The distance map on the hands of the two backends\<close>

lemma process_never_names:
  assumes "info \<in> set (fst (process contourArea moments convexHull self contours fs))"
  shows "fingertips_named info = None"
proof -
  from assms obtain c where
    "info = extract_hand_info_from_contour moments convexHull c fs"
    unfolding process_hands by auto
  then show ?thesis
    by (simp add: extract_hand_info_from_contour_def Let_def split: prod.splits)
qed

lemma mp_hand_info_named:
  assumes "mp_hand_info fs pts = Inr info"
  shows "thumb_tip info = Some (pts ! 4) \<and>
     fingertips_named info = Some [(''thumb'', pts ! 4), (''index'', pts ! 8),
        (''middle'', pts ! 12), (''ring'', pts ! 16), (''pinky'', pts ! 20)]"
proof (cases "20 < length pts")
  case True
  then have s: "subscript pts 4 = Inr (pts ! 4)" "subscript pts 8 = Inr (pts ! 8)"
    "subscript pts 12 = Inr (pts ! 12)" "subscript pts 16 = Inr (pts ! 16)"
    "subscript pts 20 = Inr (pts ! 20)" "subscript pts 0 = Inr (pts ! 0)"
    "subscript pts 9 = Inr (pts ! 9)"
    by (auto simp: subscript_def)
  obtain h w where fs: "fs = (h, w)" by (cases fs)
  from assms show ?thesis
    unfolding fs mp_hand_info_def Let_def prod.case s and_then_def sum.case py_div_def
    by (auto split: if_splits)
next
  case False
  then have "subscript pts 20 = Inl IndexError" by (simp add: subscript_def)
  then have "mp_hand_info fs pts = Inl IndexError"
    by (cases fs) (simp add: mp_hand_info_def and_then_def subscript_def)
  with assms show ?thesis by simp
qed

lemma mp_collect_members:
  assumes "mp_collect fs lms hands_out = Inr hands" "info \<in> set hands"
  shows "info \<in> set hands_out \<or>
     (\<exists>lm \<in> set lms. mp_hand_info fs (pixel_points fs lm) = Inr info)"
  using assms
proof (induction lms arbitrary: hands_out)
  case Nil
  then show ?case by simp
next
  case (Cons lm lms)
  from Cons.prems(1) obtain i where i: "mp_hand_info fs (pixel_points fs lm) = Inr i"
    and r: "mp_collect fs lms (hands_out @ [i]) = Inr hands"
    by (auto simp: and_then_Inr)
  from Cons.IH [OF r Cons.prems(2)] i show ?case by auto
qed

text \<open>
  Claim C5. The stage receives the hands of one of the two backends. On a frame of
  positive width and height, for every such hand whose \<open>fingertips_named\<close> dictionary has
  an entry other than the thumb, \<open>thumb_tip\<close> is set and the stage returns with a
  \<open>finger_dist_norm\<close> map that has exactly one entry for each named finger other than the
  thumb, in the order of the dictionary: the Euclidean distance of that fingertip to
  \<open>thumb_tip\<close> divided by the frame diagonal, which is not negative.
\<close>

theorem finger_distances_on_backend_hands:
  fixes contourArea :: "'c \<Rightarrow> real"
  assumes "0 < w" "0 < h"
    and "info \<in> set (fst (process contourArea moments convexHull self contours (h, w))) \<or>
         (\<exists>hands. mp_process (h, w) lms = Inr hands \<and> info \<in> set hands)"
    and "fingertips_named info = Some named"
    and "(fname, pt) \<in> set named" "fname \<noteq> ''thumb''"
  shows "\<exists>t n dm. thumb_tip info = Some t \<and>
     normalize_hand (h, w) info = Inr n \<and> finger_dist_norm n = Some dm \<and>
     dm = map (\<lambda>(fname, pt). (fname, dist_px pt t / frame_diagonal (h, w)))
              (filter (\<lambda>(fname, pt). fname \<noteq> ''thumb'') named) \<and>
     distinct (map fst dm) \<and>
     fst ` set dm = fst ` set named - {''thumb''} \<and>
     map_of dm fname = Some (dist_px pt t / frame_diagonal (h, w)) \<and>
     (\<forall>v \<in> snd ` set dm. 0 \<le> v)"
proof -
  have "\<not> info \<in> set (fst (process contourArea moments convexHull self contours (h, w)))"
  proof
    assume "info \<in> set (fst (process contourArea moments convexHull self contours (h, w)))"
    then have "fingertips_named info = None" by (rule process_never_names)
    with assms(4) show False by simp
  qed
  with assms(3) obtain hands where
    p: "mp_collect (h, w) lms [] = Inr hands" and m: "info \<in> set hands"
    unfolding mp_process_def by blast
  from mp_collect_members [OF p m] obtain lm where
    "mp_hand_info (h, w) (pixel_points (h, w) lm) = Inr info" by auto
  from mp_hand_info_named [OF this] obtain pts where
    t: "thumb_tip info = Some (pts ! 4)"
    and nm: "fingertips_named info = Some [(''thumb'', pts ! 4), (''index'', pts ! 8),
        (''middle'', pts ! 12), (''ring'', pts ! 16), (''pinky'', pts ! 20)]"
    by blast
  from nm assms(4) have named: "named = [(''thumb'', pts ! 4), (''index'', pts ! 8),
        (''middle'', pts ! 12), (''ring'', pts ! 16), (''pinky'', pts ! 20)]" by simp
  have di: "distinct (map fst named)" unfolding named by simp
  from finger_dists_with_thumb [OF assms(1,2) t assms(4) di assms(5,6)] obtain n dm where
    r: "normalize_hand (h, w) info = Inr n \<and> finger_dist_norm n = Some dm \<and>
     dm = map (\<lambda>(fname, pt). (fname, dist_px pt (pts ! 4) / frame_diagonal (h, w)))
              (filter (\<lambda>(fname, pt). fname \<noteq> ''thumb'') named) \<and>
     distinct (map fst dm) \<and>
     fst ` set dm = fst ` set named - {''thumb''} \<and>
     map_of dm fname = Some (dist_px pt (pts ! 4) / frame_diagonal (h, w)) \<and>
     (\<forall>v \<in> snd ` set dm. 0 \<le> v)"
    by (elim exE)
  show ?thesis
    by (rule exI [of _ "pts ! 4"], rule exI [of _ n], rule exI [of _ dm], rule conjI [OF t r])
qed

theorem finger_distances_on_backend_hands_witness:
  "map_sum id (map thumb_tip) (mp_process (480, 640)
     [[(0 / 32, 0 / 24), (1 / 32, 1 / 24), (2 / 32, 2 / 24), (3 / 32, 3 / 24), (4 / 32,
       4 / 24), (5 / 32, 5 / 24), (6 / 32, 6 / 24), (7 / 32, 7 / 24), (8 / 32, 8 / 24),
       (9 / 32, 9 / 24), (10 / 32, 10 / 24), (11 / 32, 11 / 24), (12 / 32, 12 / 24), (13
       / 32, 13 / 24), (14 / 32, 14 / 24), (15 / 32, 15 / 24), (16 / 32, 16 / 24), (17 /
       32, 17 / 24), (18 / 32, 18 / 24), (19 / 32, 19 / 24), (20 / 32, 20 / 24)]]) = Inr [Some (80, 80)] \<and>
   map_sum id (map_option (map fst) \<circ> finger_dist_norm) (normalize_hand (480, 640)
     (hd (projr (mp_process (480, 640)
     [[(0 / 32, 0 / 24), (1 / 32, 1 / 24), (2 / 32, 2 / 24), (3 / 32, 3 / 24), (4 / 32,
       4 / 24), (5 / 32, 5 / 24), (6 / 32, 6 / 24), (7 / 32, 7 / 24), (8 / 32, 8 / 24),
       (9 / 32, 9 / 24), (10 / 32, 10 / 24), (11 / 32, 11 / 24), (12 / 32, 12 / 24), (13
       / 32, 13 / 24), (14 / 32, 14 / 24), (15 / 32, 15 / 24), (16 / 32, 16 / 24), (17 /
       32, 17 / 24), (18 / 32, 18 / 24), (19 / 32, 19 / 24), (20 / 32, 20 / 24)]])))) =
     Inr (Some [''index'', ''middle'', ''ring'', ''pinky''])"
proof -
  let ?lm = "[(0 / 32, 0 / 24), (1 / 32, 1 / 24), (2 / 32, 2 / 24), (3 / 32, 3 / 24), (4 / 32,
       4 / 24), (5 / 32, 5 / 24), (6 / 32, 6 / 24), (7 / 32, 7 / 24), (8 / 32, 8 / 24),
       (9 / 32, 9 / 24), (10 / 32, 10 / 24), (11 / 32, 11 / 24), (12 / 32, 12 / 24), (13
       / 32, 13 / 24), (14 / 32, 14 / 24), (15 / 32, 15 / 24), (16 / 32, 16 / 24), (17 /
       32, 17 / 24), (18 / 32, 18 / 24), (19 / 32, 19 / 24), (20 / 32, 20 / 24)] :: (real \<times> real) list"
  let ?pts = "[(0, 0), (20, 20), (40, 40), (60, 60), (80, 80), (100, 100), (120, 120), (140,
       140), (160, 160), (180, 180), (200, 200), (220, 220), (240, 240), (260, 260),
       (280, 280), (300, 300), (320, 320), (340, 340), (360, 360), (380, 380), (400,
       400)] :: point list"
  have pp: "pixel_points (480, 640) ?lm = ?pts"
    by (simp add: pixel_points_def py_int_def)
  have w: "(0::int) < 640" and h: "(0::int) < 480" by simp_all
  from diag_pos [OF w h] have dz: "frame_diagonal (480, 640) \<noteq> 0" by simp
  have l: "length ?pts = 21" by simp
  from mp_hand_info_21 [OF l dz] obtain i where
    i: "mp_hand_info (480, 640) ?pts = Inr i"
    and t: "thumb_tip i = Some (80, 80)"
    and nm: "fingertips_named i = Some [(''thumb'', (80, 80)), (''index'', (160, 160)),
        (''middle'', (240, 240)), (''ring'', (320, 320)), (''pinky'', (400, 400))]"
    by simp
  have p: "mp_process (480, 640) [?lm] = Inr [i]"
    unfolding mp_process_def mp_collect.simps pp i and_then_def by simp
  have b: "i \<in> set (fst (process (\<lambda>c::unit. 0) (\<lambda>c. (0, 0, 0)) (\<lambda>c. []) \<lparr> history = [] \<rparr> []
        (480, 640))) \<or>
      (\<exists>hands. mp_process (480, 640) [?lm] = Inr hands \<and> i \<in> set hands)"
    using p by simp
  have m: "(''index'', (160::int, 160::int)) \<in> set [(''thumb'', (80, 80)), (''index'', (160, 160)),
        (''middle'', (240, 240)), (''ring'', (320, 320)), (''pinky'', (400, 400))]" by simp
  have nt: "''index'' \<noteq> ''thumb''" by simp
  from finger_distances_on_backend_hands [OF w h b nm m nt] t obtain n where
    "normalize_hand (480, 640) i = Inr n"
    "finger_dist_norm n = Some (map (\<lambda>(fname, pt). (fname, dist_px pt (80, 80) / frame_diagonal (480, 640)))
        (filter (\<lambda>(fname, pt). fname \<noteq> ''thumb'')
          [(''thumb'', (80, 80)), (''index'', (160, 160)),
           (''middle'', (240, 240)), (''ring'', (320, 320)), (''pinky'', (400, 400))]))"
    by auto
  then have "map_sum id (map_option (map fst) \<circ> finger_dist_norm) (normalize_hand (480, 640) i) =
     Inr (Some [''index'', ''middle'', ''ring'', ''pinky''])"
    by simp
  with t show ?thesis unfolding p by simp
qed

end
